theory Spec2Isabelle
  imports Complex_Main "HOL-Library.AList"
begin

section \<open>Values of the notebook\<close>

subsection \<open>Floating-point scalars\<close>

text \<open>
  The series handled by the notebook are numpy \<^verbatim>\<open>float64\<close> arrays, and the two scalars
  of the tidal correction are Python floats: IEEE 754 binary64 in both cases. A value is
  a finite number, a zero with its sign, an infinity with its sign, or not-a-number.
  \<open>Fin x\<close> stands for the float of value \<open>x\<close>, \<open>Fin 0\<close> for the positive zero and
  \<open>NZero\<close> for the negative zero; every result of an operation is rounded to a number
  of binary64. Warnings are switched off in the first cell
  (\<^verbatim>\<open>warnings.filterwarnings("ignore")\<close>), and numpy raises on no arithmetic operation: a
  division by zero yields an infinity or NaN as a value.
\<close>

datatype npfloat = Fin real | NZero | PInf | NInf | NaN

fun isnan :: "npfloat \<Rightarrow> bool" where
  "isnan NaN = True"
| "isnan _ = False"

fun isinf :: "npfloat \<Rightarrow> bool" where
  "isinf PInf = True"
| "isinf NInf = True"
| "isinf _ = False"

fun isfinite :: "npfloat \<Rightarrow> bool" where
  "isfinite (Fin _) = True"
| "isfinite NZero = True"
| "isfinite _ = False"

fun iszero :: "npfloat \<Rightarrow> bool" where
  "iszero (Fin x) = (x = 0)"
| "iszero NZero = True"
| "iszero _ = False"

fun signbit :: "npfloat \<Rightarrow> bool" where
  "signbit (Fin x) = (x < 0)"
| "signbit NZero = True"
| "signbit NInf = True"
| "signbit _ = False"

fun valof :: "npfloat \<Rightarrow> real" where
  "valof (Fin x) = x"
| "valof _ = 0"

definition signed_zero :: "bool \<Rightarrow> npfloat" where
  "signed_zero negative = (if negative then NZero else Fin 0)"

definition signed_inf :: "bool \<Rightarrow> npfloat" where
  "signed_inf negative = (if negative then NInf else PInf)"

text \<open>The comparison \<^verbatim>\<open>==\<close>: NaN equals nothing, the two zeros are equal.\<close>

definition feq :: "npfloat \<Rightarrow> npfloat \<Rightarrow> bool" where
  "feq x y = (\<not> isnan x \<and> \<not> isnan y \<and> (x = y \<or> (iszero x \<and> iszero y)))"

text \<open>
  Rounding of a real other than zero to binary64, to nearest with ties to even. With
  \<open>k\<close> the binary exponent of \<open>\<bar>x\<bar>\<close> (\<open>2 ^ k \<le> \<bar>x\<bar> < 2 ^ (k + 1)\<close>), the spacing of the
  floats around \<open>x\<close> is \<open>2 ^ (k - 52)\<close>, and \<open>2 ^ (- 1074)\<close> in the subnormal range;
  \<open>\<bar>x\<bar>\<close> is rounded to a multiple of the spacing. A result of \<open>2 ^ 1024\<close> or more is
  an infinity, a result of zero keeps the sign of \<open>x\<close>.
\<close>

fun bitlen :: "nat \<Rightarrow> nat" where
  "bitlen n = (if n = 0 then 0 else Suc (bitlen (n div 2)))"

declare bitlen.simps [simp del]

definition pow2 :: "int \<Rightarrow> real" where
  "pow2 q = (if 0 \<le> q then 2 ^ nat q else 1 / 2 ^ nat (- q))"

definition ilog2 :: "real \<Rightarrow> int" where
  "ilog2 a =
     (if 1 \<le> a then int (bitlen (nat \<lfloor>a\<rfloor>)) - 1
      else - int (bitlen (nat (\<lceil>1 / a\<rceil> - 1))))"

definition round_half_even :: "real \<Rightarrow> int" where
  "round_half_even y =
     (let f = \<lfloor>y\<rfloor>; r = y - of_int f
      in if r < 1 / 2 then f
         else if 1 / 2 < r then f + 1
         else if even f then f else f + 1)"

definition rnd :: "real \<Rightarrow> npfloat" where
  "rnd x =
     (let q = max (ilog2 \<bar>x\<bar> - 52) (- 1074);
          m = round_half_even (\<bar>x\<bar> / pow2 q);
          v = of_int m * pow2 q
      in if m = 0 then signed_zero (x < 0)
         else if pow2 1024 \<le> v then signed_inf (x < 0)
         else Fin (if x < 0 then - v else v))"

text \<open>
  The operations of the cell. A sum of two finite numbers that is exactly zero is the
  positive zero; a zero added to a number leaves it; the sum of the two zeros is
  negative only when both are. Subtraction adds the negation. A quotient has the sign
  of its operands combined; zero by zero and infinity by infinity are NaN.
\<close>

fun fneg :: "npfloat \<Rightarrow> npfloat" where
  "fneg (Fin x) = (if x = 0 then NZero else Fin (- x))"
| "fneg NZero = Fin 0"
| "fneg PInf = NInf"
| "fneg NInf = PInf"
| "fneg NaN = NaN"

fun fadd :: "npfloat \<Rightarrow> npfloat \<Rightarrow> npfloat" where
  "fadd NaN _ = NaN"
| "fadd _ NaN = NaN"
| "fadd PInf NInf = NaN"
| "fadd NInf PInf = NaN"
| "fadd PInf _ = PInf"
| "fadd _ PInf = PInf"
| "fadd NInf _ = NInf"
| "fadd _ NInf = NInf"
| "fadd NZero y = y"
| "fadd x NZero = x"
| "fadd (Fin x) (Fin y) =
     (if y = 0 then Fin x
      else if x = 0 then Fin y
      else if x + y = 0 then Fin 0
      else rnd (x + y))"

definition fsub :: "npfloat \<Rightarrow> npfloat \<Rightarrow> npfloat" where
  "fsub x y = fadd x (fneg y)"

definition fdiv :: "npfloat \<Rightarrow> npfloat \<Rightarrow> npfloat" where
  "fdiv x y =
     (let negative = (signbit x \<noteq> signbit y)
      in if isnan x \<or> isnan y then NaN
         else if isinf x then (if isinf y then NaN else signed_inf negative)
         else if isinf y then signed_zero negative
         else if iszero y then (if iszero x then NaN else signed_inf negative)
         else if iszero x then signed_zero negative
         else rnd (valof x / valof y))"

subsection \<open>Objects and the store\<close>

text \<open>
  Python variables hold references. The store is a list of objects, an address is an
  index into it, and allocation appends. Three kinds of object occur in the cells
  modelled here: a one-dimensional numpy array, a list of acquisition dates (a timestamp
  is an integer number of microseconds), and a dict from transect names to references.
  A dict keeps its keys in insertion order, so it is an association list. A reference
  always points into the store; reading an address outside it, like reading an object of
  another kind than the one expected, is a TypeError.
\<close>

type_synonym addr = nat

datatype obj = Arr "npfloat list" | Dates "int list" | Dict "(string \<times> addr) list"

type_synonym heap = "obj list"

datatype error = KeyError | ValueError | TypeError | IndexError

definition alloc :: "heap \<Rightarrow> obj \<Rightarrow> heap \<times> addr" where
  "alloc h v = (h @ [v], length h)"

definition get_arr :: "heap \<Rightarrow> addr \<Rightarrow> error + npfloat list" where
  "get_arr h a =
     (if a < length h then (case h ! a of Arr xs \<Rightarrow> Inr xs | _ \<Rightarrow> Inl TypeError)
      else Inl TypeError)"

definition get_dates :: "heap \<Rightarrow> addr \<Rightarrow> error + int list" where
  "get_dates h a =
     (if a < length h then (case h ! a of Dates ds \<Rightarrow> Inr ds | _ \<Rightarrow> Inl TypeError)
      else Inl TypeError)"

definition get_dict :: "heap \<Rightarrow> addr \<Rightarrow> error + (string \<times> addr) list" where
  "get_dict h a =
     (if a < length h then (case h ! a of Dict es \<Rightarrow> Inr es | _ \<Rightarrow> Inl TypeError)
      else Inl TypeError)"

text \<open>\<^verbatim>\<open>d[key]\<close> raises KeyError on a missing key.\<close>

definition getitem :: "heap \<Rightarrow> addr \<Rightarrow> string \<Rightarrow> error + addr" where
  "getitem h d key =
     (case get_dict h d of
        Inl e \<Rightarrow> Inl e
      | Inr es \<Rightarrow> (case map_of es key of None \<Rightarrow> Inl KeyError | Some a \<Rightarrow> Inr a))"

text \<open>
  \<^verbatim>\<open>d[key] = v\<close> mutates the dict object in place: an existing key keeps its position,
  a new key goes to the end.
\<close>

definition setitem :: "heap \<Rightarrow> addr \<Rightarrow> string \<Rightarrow> addr \<Rightarrow> error + heap" where
  "setitem h d key v =
     (case get_dict h d of
        Inl e \<Rightarrow> Inl e
      | Inr es \<Rightarrow> Inr (h[d := Dict (AList.update key v es)]))"

text \<open>\<^verbatim>\<open>d.keys()\<close>, in insertion order.\<close>

definition keys :: "heap \<Rightarrow> addr \<Rightarrow> error + string list" where
  "keys h d = (case get_dict h d of Inl e \<Rightarrow> Inl e | Inr es \<Rightarrow> Inr (map fst es))"

subsection \<open>numpy arithmetic on one-dimensional arrays\<close>

text \<open>
  An array combined with a Python scalar is combined element by element. Two arrays are
  broadcast: equal lengths combine element by element, an array of length one is
  stretched to the other's length, any other pair of lengths raises ValueError.
\<close>

definition broadcast2 ::
  "(npfloat \<Rightarrow> npfloat \<Rightarrow> npfloat) \<Rightarrow> npfloat list \<Rightarrow> npfloat list \<Rightarrow> error + npfloat list" where
  "broadcast2 f xs ys =
     (if length xs = length ys then Inr (map2 f xs ys)
      else if length xs = 1 then Inr (map (f (hd xs)) ys)
      else if length ys = 1 then Inr (map (\<lambda>x. f x (hd ys)) xs)
      else Inl ValueError)"

section \<open>Tidal correction\<close>

text \<open>
  The cell of \<^verbatim>\<open>WORKSHOP.ipynb\<close> under "tidal correction along each transect":
  \<^verbatim>\<open>
  cross_distance_tidally_corrected = {}
  for key in cross_distance.keys():
      correction = (tides_sat-reference_elevation)/beach_slope
      cross_distance_tidally_corrected[key] = cross_distance[key] + correction
  \<close>
  \<^verbatim>\<open>reference_elevation\<close> and \<^verbatim>\<open>beach_slope\<close> are Python scalars (0 and 1/60 in the
  notebook); here they are parameters. Each arithmetic operation allocates its result.
\<close>

definition tc_body ::
  "addr \<Rightarrow> addr \<Rightarrow> npfloat \<Rightarrow> npfloat \<Rightarrow> addr \<Rightarrow> string \<Rightarrow> heap \<Rightarrow> error + heap" where
  "tc_body cross_distance tides_sat reference_elevation beach_slope corrected key h =
     (case get_arr h tides_sat of
        Inl e \<Rightarrow> Inl e
      | Inr tides \<Rightarrow>
          let (h1, diff) = alloc h (Arr (map (\<lambda>t. fsub t reference_elevation) tides)) in
          (case get_arr h1 diff of
             Inl e \<Rightarrow> Inl e
           | Inr ds \<Rightarrow>
               let (h2, correction) = alloc h1 (Arr (map (\<lambda>d. fdiv d beach_slope) ds)) in
               (case getitem h2 cross_distance key of
                  Inl e \<Rightarrow> Inl e
                | Inr ra \<Rightarrow>
                    (case get_arr h2 ra of
                       Inl e \<Rightarrow> Inl e
                     | Inr raw \<Rightarrow>
                         (case get_arr h2 correction of
                            Inl e \<Rightarrow> Inl e
                          | Inr corr \<Rightarrow>
                              (case broadcast2 fadd raw corr of
                                 Inl e \<Rightarrow> Inl e
                               | Inr s \<Rightarrow>
                                   let (h3, res) = alloc h2 (Arr s) in
                                   setitem h3 corrected key res))))))"

fun tc_loop ::
  "addr \<Rightarrow> addr \<Rightarrow> npfloat \<Rightarrow> npfloat \<Rightarrow> addr \<Rightarrow> string list \<Rightarrow> heap \<Rightarrow> error + heap" where
  "tc_loop cd ts re bs out [] h = Inr h"
| "tc_loop cd ts re bs out (key # ks) h =
     (case tc_body cd ts re bs out key h of
        Inl e \<Rightarrow> Inl e
      | Inr h' \<Rightarrow> tc_loop cd ts re bs out ks h')"

text \<open>
  The whole cell: the store before, the references held by \<^verbatim>\<open>cross_distance\<close> and
  \<^verbatim>\<open>tides_sat\<close>, and the two scalars. It returns the store after and the reference
  bound to \<^verbatim>\<open>cross_distance_tidally_corrected\<close>, or the exception raised.
\<close>

definition tidal_correction ::
  "heap \<Rightarrow> addr \<Rightarrow> addr \<Rightarrow> npfloat \<Rightarrow> npfloat \<Rightarrow> error + (heap \<times> addr)" where
  "tidal_correction h cross_distance tides_sat reference_elevation beach_slope =
     (let (h0, cross_distance_tidally_corrected) = alloc h (Dict []) in
      (case keys h0 cross_distance of
         Inl e \<Rightarrow> Inl e
       | Inr ks \<Rightarrow>
           (case tc_loop cross_distance tides_sat reference_elevation beach_slope
                   cross_distance_tidally_corrected ks h0 of
              Inl e \<Rightarrow> Inl e
            | Inr h' \<Rightarrow> Inr (h', cross_distance_tidally_corrected))))"

text \<open>Reading a cell of a series held in a dict: \<^verbatim>\<open>d[key][i]\<close>.\<close>

definition series :: "heap \<Rightarrow> addr \<Rightarrow> string \<Rightarrow> error + npfloat list" where
  "series h d key = (case getitem h d key of Inl e \<Rightarrow> Inl e | Inr a \<Rightarrow> get_arr h a)"

text \<open>
  The shape the notebook relies on: \<^verbatim>\<open>tides_sat\<close> is an array, and every series of
  \<^verbatim>\<open>cross_distance\<close> is an array of the same length (one entry per acquisition date).
\<close>

definition aligned :: "heap \<Rightarrow> addr \<Rightarrow> addr \<Rightarrow> bool" where
  "aligned h cross_distance tides_sat =
     (case get_arr h tides_sat of
        Inl _ \<Rightarrow> False
      | Inr tides \<Rightarrow>
          (case keys h cross_distance of
             Inl _ \<Rightarrow> False
           | Inr ks \<Rightarrow>
               list_all (\<lambda>k. case series h cross_distance k of
                                Inl _ \<Rightarrow> False
                              | Inr raw \<Rightarrow> length raw = length tides) ks))"

text \<open>
  The shift applied to one cell, read back after the cell has run:
  \<^verbatim>\<open>cross_distance_tidally_corrected[key][i] - cross_distance[key][i]\<close>.
\<close>

definition shift ::
  "heap \<Rightarrow> addr \<Rightarrow> addr \<Rightarrow> npfloat \<Rightarrow> npfloat \<Rightarrow> string \<Rightarrow> nat \<Rightarrow> error + npfloat" where
  "shift h cross_distance tides_sat reference_elevation beach_slope key i =
     (case tidal_correction h cross_distance tides_sat reference_elevation beach_slope of
        Inl e \<Rightarrow> Inl e
      | Inr (h', corrected) \<Rightarrow>
          (case series h' corrected key of
             Inl e \<Rightarrow> Inl e
           | Inr corr \<Rightarrow>
               (case series h' cross_distance key of
                  Inl e \<Rightarrow> Inl e
                | Inr raw \<Rightarrow>
                    if i < length corr \<and> i < length raw
                    then Inr (fsub (corr ! i) (raw ! i)) else Inl IndexError)))"

text \<open>
  A small store used to run the cells: two transects over two dates, the second date of
  \<^verbatim>\<open>NA1\<close> rejected (NaN), the tide levels, the dict \<^verbatim>\<open>cross_distance\<close> and the dates.
\<close>

definition example_store :: heap where
  "example_store =
     [Arr [Fin 100, NaN], Arr [Fin 40, Fin 50], Arr [Fin 1, Fin 2],
      Dict [(''NA1'', 0), (''NA2'', 1)], Dates [10, 20]]"

text \<open>
  A second store, with values that are not whole numbers: the floats written
  \<^verbatim>\<open>100.3\<close> and \<^verbatim>\<open>40.7\<close> for two transects at one date, and \<^verbatim>\<open>0.7\<close> for the tide level.
  \<open>one_sixtieth\<close> is the notebook's slope, the float \<^verbatim>\<open>1/60\<close>.
\<close>

definition rounding_store :: heap where
  "rounding_store =
     [Arr [Fin (7057985041019699 / 2 ^ 46)], Arr [Fin (2864007888030925 / 2 ^ 46)],
      Arr [Fin (3152519739159347 / 2 ^ 52)], Dict [(''NA1'', 0), (''NA2'', 1)]]"

definition one_sixtieth :: npfloat where
  "one_sixtieth = fdiv (Fin 1) (Fin 60)"

section \<open>Time-series tables\<close>

text \<open>
  The raw series are written to a csv file by
  \<^verbatim>\<open>
  out_dict = dict([])
  out_dict['dates'] = output['dates']
  for key in transects.keys():
      out_dict[key] = cross_distance[key]
  df = pd.DataFrame(out_dict)
  df.to_csv(fn, sep=',')
  \<close>
  and the tidally-corrected ones by the same lines over
  \<^verbatim>\<open>cross_distance_tidally_corrected.keys()\<close>, with \<^verbatim>\<open>dates_sat\<close> for the dates.
  Storing a value in \<^verbatim>\<open>out_dict\<close> stores the reference: nothing is copied.
\<close>

fun fill_out_dict :: "addr \<Rightarrow> addr \<Rightarrow> string list \<Rightarrow> heap \<Rightarrow> error + heap" where
  "fill_out_dict src out_dict [] h = Inr h"
| "fill_out_dict src out_dict (key # ks) h =
     (case getitem h src key of
        Inl e \<Rightarrow> Inl e
      | Inr a \<Rightarrow>
          (case setitem h out_dict key a of
             Inl e \<Rightarrow> Inl e
           | Inr h' \<Rightarrow> fill_out_dict src out_dict ks h'))"

text \<open>
  \<^verbatim>\<open>pd.DataFrame(out_dict)\<close> makes one column per key, in the dict's order, from the
  object each key refers to, and raises ValueError unless all columns have the same
  length. No row is removed, whatever its values. (A dict as a value does not occur in
  the notebook; it is refused here.)
\<close>

datatype column = DateCol "int list" | NumCol "npfloat list"

type_synonym dataframe = "(string \<times> column) list"

fun column_length :: "column \<Rightarrow> nat" where
  "column_length (DateCol ds) = length ds"
| "column_length (NumCol xs) = length xs"

fun as_column :: "obj \<Rightarrow> error + column" where
  "as_column (Arr xs) = Inr (NumCol xs)"
| "as_column (Dates ds) = Inr (DateCol ds)"
| "as_column (Dict es) = Inl ValueError"

fun to_columns :: "heap \<Rightarrow> (string \<times> addr) list \<Rightarrow> error + dataframe" where
  "to_columns h [] = Inr []"
| "to_columns h ((name, a) # es) =
     (if a < length h then
        (case as_column (h ! a) of
           Inl e \<Rightarrow> Inl e
         | Inr c \<Rightarrow>
             (case to_columns h es of
                Inl e \<Rightarrow> Inl e
              | Inr cs \<Rightarrow> Inr ((name, c) # cs)))
      else Inl TypeError)"

definition nrows :: "dataframe \<Rightarrow> nat" where
  "nrows df = (case df of [] \<Rightarrow> 0 | (name, c) # _ \<Rightarrow> column_length c)"

definition DataFrame :: "heap \<Rightarrow> addr \<Rightarrow> error + dataframe" where
  "DataFrame h data =
     (case get_dict h data of
        Inl e \<Rightarrow> Inl e
      | Inr es \<Rightarrow>
          (case to_columns h es of
             Inl e \<Rightarrow> Inl e
           | Inr cs \<Rightarrow>
               if list_all (\<lambda>(name, c). column_length c = nrows cs) cs then Inr cs
               else Inl ValueError))"

text \<open>
  \<^verbatim>\<open>df.to_csv\<close> writes one line per row, in index order, the index being the position.
  A line is given here by its named cells.
\<close>

datatype cell = DateCell int | NumCell npfloat

fun cell_at :: "column \<Rightarrow> nat \<Rightarrow> cell" where
  "cell_at (DateCol ds) i = DateCell (ds ! i)"
| "cell_at (NumCol xs) i = NumCell (xs ! i)"

definition to_csv :: "dataframe \<Rightarrow> (string \<times> cell) list list" where
  "to_csv df = map (\<lambda>i. map (\<lambda>(name, c). (name, cell_at c i)) df) [0..<nrows df]"

text \<open>
  The first cell. \<^verbatim>\<open>transects\<close> is a dict from names to coordinate pairs; only its keys
  are used, and they are the parameter \<open>transects_keys\<close>. Both cells return the store
  they leave behind, with \<^verbatim>\<open>out_dict\<close> in it, and the table they write.
\<close>

definition transect_time_series ::
  "heap \<Rightarrow> addr \<Rightarrow> string list \<Rightarrow> addr \<Rightarrow> error + (heap \<times> dataframe)" where
  "transect_time_series h output_dates transects_keys cross_distance =
     (let (h0, out_dict) = alloc h (Dict []) in
      (case setitem h0 out_dict ''dates'' output_dates of
         Inl e \<Rightarrow> Inl e
       | Inr h1 \<Rightarrow>
           (case fill_out_dict cross_distance out_dict transects_keys h1 of
              Inl e \<Rightarrow> Inl e
            | Inr h2 \<Rightarrow>
                (case DataFrame h2 out_dict of
                   Inl e \<Rightarrow> Inl e
                 | Inr df \<Rightarrow> Inr (h2, df)))))"

definition transect_time_series_tidally_corrected ::
  "heap \<Rightarrow> addr \<Rightarrow> addr \<Rightarrow> error + (heap \<times> dataframe)" where
  "transect_time_series_tidally_corrected h dates_sat cross_distance_tidally_corrected =
     (let (h0, out_dict) = alloc h (Dict []) in
      (case setitem h0 out_dict ''dates'' dates_sat of
         Inl e \<Rightarrow> Inl e
       | Inr h1 \<Rightarrow>
           (case keys h1 cross_distance_tidally_corrected of
              Inl e \<Rightarrow> Inl e
            | Inr ks \<Rightarrow>
                (case fill_out_dict cross_distance_tidally_corrected out_dict ks h1 of
                   Inl e \<Rightarrow> Inl e
                 | Inr h2 \<Rightarrow>
                     (case DataFrame h2 out_dict of
                        Inl e \<Rightarrow> Inl e
                      | Inr df \<Rightarrow> Inr (h2, df))))))"

text \<open>
  What a table is checked against: the dates read down the lines of the file, and the
  statement that a table over the date axis \<open>ds\<close> holds the series \<open>xs\<close> under \<open>key\<close>
  in full.
\<close>

definition csv_dates :: "dataframe \<Rightarrow> int list" where
  "csv_dates df =
     concat (map (\<lambda>row. case map_of row ''dates'' of Some (DateCell d) \<Rightarrow> [d] | _ \<Rightarrow> [])
               (to_csv df))"

definition keeps_series :: "int list \<Rightarrow> string \<Rightarrow> npfloat list \<Rightarrow> dataframe \<Rightarrow> bool" where
  "keeps_series ds key xs df =
     (map_of df key = Some (NumCol xs) \<and> length xs = length ds \<and>
      length (to_csv df) = length ds \<and> csv_dates df = ds \<and>
      map (\<lambda>row. map_of row key) (to_csv df) = map (\<lambda>x. Some (NumCell x)) xs)"

section \<open>Tide levels at the acquisition dates\<close>

text \<open>
  Modelled from the spec: the notebook calls
  \<^verbatim>\<open>tides_sat = SDS_tools.get_closest_datapoint(dates_sat, dates_ts, tides_ts)\<close>, and the
  body of \<^verbatim>\<open>get_closest_datapoint\<close> is not among the sources. The definition follows the
  sentence of the specification: the tide level of a date is that of the sample closest
  to it in absolute time, and of two samples equally close the earlier one. A sample is a
  timestamp with a level; a series without samples has no closest sample, which is an
  error.
\<close>

type_synonym sample = "int \<times> npfloat"

definition closer :: "int \<Rightarrow> sample \<Rightarrow> sample \<Rightarrow> bool" where
  "closer date s best =
     (\<bar>fst s - date\<bar> < \<bar>fst best - date\<bar> \<or>
      (\<bar>fst s - date\<bar> = \<bar>fst best - date\<bar> \<and> fst s < fst best))"

fun closest :: "int \<Rightarrow> sample \<Rightarrow> sample list \<Rightarrow> sample" where
  "closest date best [] = best"
| "closest date best (s # ss) = closest date (if closer date s best then s else best) ss"

definition tideLevel :: "sample list \<Rightarrow> int \<Rightarrow> error + npfloat" where
  "tideLevel tide_series date =
     (case tide_series of
        [] \<Rightarrow> Inl ValueError
      | s # ss \<Rightarrow> Inr (snd (closest date s ss)))"

fun get_closest_datapoint :: "int list \<Rightarrow> sample list \<Rightarrow> error + npfloat list" where
  "get_closest_datapoint [] tide_series = Inr []"
| "get_closest_datapoint (date # dates) tide_series =
     (case tideLevel tide_series date of
        Inl e \<Rightarrow> Inl e
      | Inr level \<Rightarrow>
          (case get_closest_datapoint dates tide_series of
             Inl e \<Rightarrow> Inl e
           | Inr levels \<Rightarrow> Inr (level # levels)))"

section \<open>Intersections of shorelines and transects\<close>

text \<open>
  Modelled from the spec: the notebook calls
  \<^verbatim>\<open>SDS_transects.compute_intersection_QC(output, transects, settings_transects)\<close>, and the
  body of \<^verbatim>\<open>compute_intersection_QC\<close> is not among the sources. The definitions of this
  section follow sections 4.1 and 4.3 of the specification step by step, with the option
  names of its section 6. The specification leaves the rule that splits chainages into
  clusters open; it is a parameter here. The notebook describes the options in the same
  way: \<^verbatim>\<open>min_points\<close> is the minimum number of shoreline points to calculate an
  intersection, and under \<^verbatim>\<open>'auto'\<close> the function decides transect by transect from the
  share of the time series that shows multiple intersections.
\<close>

subsection \<open>Geometry\<close>

type_synonym point = "real \<times> real"

record transect =
  origin :: point
  endpoint :: point

text \<open>
  Chainage is the signed distance along the transect direction from the origin, offset the
  signed distance from the transect line.
\<close>

definition projectOntoTransect :: "transect \<Rightarrow> point \<Rightarrow> real \<times> real" where
  "projectOntoTransect tr p =
     (let dx = fst (endpoint tr) - fst (origin tr);
          dy = snd (endpoint tr) - snd (origin tr);
          len = sqrt (dx\<^sup>2 + dy\<^sup>2);
          ux = dx / len;
          uy = dy / len;
          px = fst p - fst (origin tr);
          py = snd p - snd (origin tr)
      in (px * ux + py * uy, py * ux - px * uy))"

definition pointsWithinAlongshoreBand :: "transect \<Rightarrow> point list \<Rightarrow> real \<Rightarrow> point list" where
  "pointsWithinAlongshoreBand tr points band =
     filter (\<lambda>p. \<bar>snd (projectOntoTransect tr p)\<bar> \<le> band) points"

subsection \<open>Statistics of a set of chainages\<close>

definition mean :: "real list \<Rightarrow> real" where
  "mean xs = sum_list xs / real (length xs)"

definition std :: "real list \<Rightarrow> real" where
  "std xs = sqrt (mean (map (\<lambda>x. (x - mean xs)\<^sup>2) xs))"

definition spread :: "real list \<Rightarrow> real" where
  "spread xs = last (sort xs) - hd (sort xs)"

definition median :: "real list \<Rightarrow> real" where
  "median xs =
     (let s = sort xs; n = length s
      in if even n then (s ! (n div 2 - 1) + s ! (n div 2)) / 2 else s ! (n div 2))"

text \<open>The median of no points is not a number.\<close>

definition median_chainage :: "real list \<Rightarrow> npfloat" where
  "median_chainage xs = (if xs = [] then NaN else Fin (median xs))"

subsection \<open>One transect at one date\<close>

datatype policy = Auto | Nan | Max

record settings =
  alongDist :: real
  minPoints :: nat
  maxStd :: real
  maxRange :: real
  minChainage :: real
  multipleInter :: policy
  autoPrc :: real

type_synonym clustering = "real list \<Rightarrow> real list list"

text \<open>
  Steps 1 to 6, up to the choice of policy: too few points in the band; or one coherent
  cluster (the dispersion gate passes, or the clustering gives back one group); or two or
  more clusters; or a tripped gate that the clustering does not resolve.
\<close>

datatype analysis = TooFew | Unreliable | Single "real list" | Multiple "real list list"

definition analyse :: "clustering \<Rightarrow> settings \<Rightarrow> transect \<Rightarrow> point list \<Rightarrow> analysis" where
  "analyse cluster st tr points =
     (let selected = pointsWithinAlongshoreBand tr points (alongDist st) in
      if length selected < minPoints st then TooFew
      else
        let chainages = map (\<lambda>p. fst (projectOntoTransect tr p)) selected in
        if maxStd st < std chainages \<or> maxRange st < spread chainages then
          (case cluster chainages of
             [] \<Rightarrow> Unreliable
           | [c] \<Rightarrow> Single c
           | cs \<Rightarrow> Multiple cs)
        else Single chainages)"

text \<open>The seaward-most cluster is the one that reaches the largest chainage.\<close>

fun seaward :: "real list list \<Rightarrow> real list" where
  "seaward [] = []"
| "seaward (c # cs) =
     (let b = seaward cs
      in if c = [] then b
         else if b = [] then c
         else if last (sort b) < last (sort c) then c else b)"

text \<open>
  Steps 5 and 6 under a policy that is either "nan" or "max", then step 7, the landward
  rejection.
\<close>

fun resolve :: "policy \<Rightarrow> analysis \<Rightarrow> npfloat" where
  "resolve p TooFew = NaN"
| "resolve p Unreliable = NaN"
| "resolve p (Single c) = median_chainage c"
| "resolve p (Multiple cs) = (if p = Max then median_chainage (seaward cs) else NaN)"

definition landward_rejection :: "settings \<Rightarrow> npfloat \<Rightarrow> npfloat" where
  "landward_rejection st v =
     (case v of Fin x \<Rightarrow> (if x < minChainage st then NaN else Fin x) | _ \<Rightarrow> v)"

subsection \<open>One transect over all dates\<close>

fun is_multiple :: "analysis \<Rightarrow> bool" where
  "is_multiple (Multiple cs) = True"
| "is_multiple _ = False"

definition multiple_fraction :: "analysis list \<Rightarrow> real" where
  "multiple_fraction as = real (length (filter is_multiple as)) / real (length as)"

text \<open>
  The policy for a transect. Under "auto" it is decided from the analyses of all dates:
  "max" when the fraction of dates with several clusters exceeds \<open>autoPrc\<close>, "nan"
  otherwise.
\<close>

definition transect_policy :: "settings \<Rightarrow> analysis list \<Rightarrow> policy" where
  "transect_policy st as =
     (case multipleInter st of
        Auto \<Rightarrow> (if autoPrc st < multiple_fraction as then Max else Nan)
      | p \<Rightarrow> p)"

text \<open>
  Structural errors are the only failures: a transect whose two ends coincide, and an
  empty set of shoreline records. Everything else yields a series with one value per
  date, NaN where the date is rejected.
\<close>

datatype structural_error = MalformedTransect | EmptyRecordSet

definition intersect_QC ::
  "clustering \<Rightarrow> settings \<Rightarrow> transect \<Rightarrow> point list list \<Rightarrow> structural_error + npfloat list" where
  "intersect_QC cluster st tr shorelines =
     (if origin tr = endpoint tr then Inl MalformedTransect
      else if shorelines = [] then Inl EmptyRecordSet
      else
        let as = map (analyse cluster st tr) shorelines;
            p = transect_policy st as
        in Inr (map (\<lambda>a. landward_rejection st (resolve p a)) as))"

fun compute_intersection_QC ::
  "clustering \<Rightarrow> settings \<Rightarrow> (string \<times> transect) list \<Rightarrow> point list list \<Rightarrow>
     structural_error + (string \<times> npfloat list) list" where
  "compute_intersection_QC cluster st [] shorelines = Inr []"
| "compute_intersection_QC cluster st ((key, tr) # transects) shorelines =
     (case intersect_QC cluster st tr shorelines of
        Inl e \<Rightarrow> Inl e
      | Inr s \<Rightarrow>
          (case compute_intersection_QC cluster st transects shorelines of
             Inl e \<Rightarrow> Inl e
           | Inr cross_distance \<Rightarrow> Inr ((key, s) # cross_distance)))"

text \<open>
  A clustering rule for running the engine: chainages are cut wherever two neighbours of
  the sorted sequence are more than \<open>gap\<close> apart.
\<close>

fun cut_at_gaps :: "real \<Rightarrow> real list \<Rightarrow> real list list" where
  "cut_at_gaps gap [] = []"
| "cut_at_gaps gap [x] = [[x]]"
| "cut_at_gaps gap (x # y # ys) =
     (case cut_at_gaps gap (y # ys) of
        [] \<Rightarrow> [[x]]
      | c # cs \<Rightarrow> (if gap < y - x then [x] # c # cs else (x # c) # cs))"

definition gap_clusters :: "real \<Rightarrow> clustering" where
  "gap_clusters gap chainages = cut_at_gaps gap (sort chainages)"

text \<open>
  The options of the notebook's cell (\<^verbatim>\<open>along_dist\<close> 25, \<^verbatim>\<open>min_points\<close> 3, \<^verbatim>\<open>max_std\<close> 15,
  \<^verbatim>\<open>max_range\<close> 50, \<^verbatim>\<open>min_chainage\<close> -100, \<^verbatim>\<open>multiple_inter\<close> auto, \<^verbatim>\<open>prc_multiple\<close> 0.1),
  a transect of unit length along the first axis, on which the chainage of a point is its
  first coordinate and the offset its second, and two shoreline records: one crossing
  near chainage 100, and two crossings at 40 and 160. The last point of each lies
  outside the band.
\<close>

definition settings_transects :: settings where
  "settings_transects =
     \<lparr>alongDist = 25, minPoints = 3, maxStd = 15, maxRange = 50, minChainage = - 100,
      multipleInter = Auto, autoPrc = 1/10\<rparr>"

definition unit_transect :: transect where
  "unit_transect = \<lparr>origin = (0, 0), endpoint = (1, 0)\<rparr>"

definition one_crossing :: "point list" where
  "one_crossing = [(100, 0), (102, 3), (98, - 2), (70, 30)]"

definition two_crossings :: "point list" where
  "two_crossings = [(40, 0), (41, 3), (160, - 2), (70, 30)]"

section \<open>Properties of the tidal correction\<close>

subsection \<open>The store under the loop\<close>

lemma get_arr_append:
  "a < length h \<Longrightarrow> get_arr (h @ xs) a = get_arr h a"
  by (simp add: get_arr_def nth_append)

lemma get_dict_append:
  "a < length h \<Longrightarrow> get_dict (h @ xs) a = get_dict h a"
  by (simp add: get_dict_def nth_append)

lemma get_arr_Inr: "get_arr h a = Inr xs \<longleftrightarrow> a < length h \<and> h ! a = Arr xs"
  by (auto simp: get_arr_def split: obj.splits)

lemma get_dict_Inr: "get_dict h a = Inr es \<longleftrightarrow> a < length h \<and> h ! a = Dict es"
  by (auto simp: get_dict_def split: obj.splits)

lemma get_dates_Inr: "get_dates h a = Inr ds \<longleftrightarrow> a < length h \<and> h ! a = Dates ds"
  by (auto simp: get_dates_def split: obj.splits)

lemma tc_body_frame:
  assumes "tc_body cd ts re bs out key g = Inr g'"
  shows "length g \<le> length g' \<and> (\<forall>a < length g. a \<noteq> out \<longrightarrow> g' ! a = g ! a)"
  using assms
  by (auto simp: tc_body_def alloc_def setitem_def nth_append split: sum.splits prod.splits)

lemma tc_body_dict:
  assumes "tc_body cd ts re bs out key g = Inr g'" and "get_dict g out = Inr d"
  shows "get_dict g' out = Inr (AList.update key (length g + 2) d) \<and> length g' = length g + 3
     \<and> (\<forall>tides raw. get_arr g ts = Inr tides \<longrightarrow> series g cd key = Inr raw \<longrightarrow>
           (\<exists>s. broadcast2 fadd raw (map (\<lambda>t. fdiv (fsub t re) bs) tides) = Inr s \<and>
           get_arr g' (length g + 2) = Inr s))"
  using assms
  by (auto simp: tc_body_def alloc_def setitem_def nth_append series_def getitem_def
        get_arr_Inr get_dict_Inr comp_def split: sum.splits prod.splits option.splits)

lemma tc_body_total:
  assumes "get_arr g ts = Inr tides" and "series g cd key = Inr raw"
    and "broadcast2 fadd raw (map (\<lambda>t. fdiv (fsub t re) bs) tides) = Inr s"
    and "get_dict g out = Inr d"
  shows "\<exists>g'. tc_body cd ts re bs out key g = Inr g'"
proof -
  from assms(1) have ts: "ts < length g" "g ! ts = Arr tides" by (simp_all add: get_arr_Inr)
  from assms(4) have out: "out < length g" "g ! out = Dict d" by (simp_all add: get_dict_Inr)
  from assms(2) obtain es ra where cd: "cd < length g" "g ! cd = Dict es" "map_of es key = Some ra"
     "ra < length g" "g ! ra = Arr raw"
    by (auto simp: series_def getitem_def get_arr_Inr get_dict_Inr split: sum.splits option.splits)
  show ?thesis
    using ts out cd assms(3)
    by (simp add: tc_body_def alloc_def setitem_def nth_append getitem_def
        get_arr_def get_dict_def comp_def)
qed

lemma get_arr_frame:
  assumes "get_arr g a = Inr xs" and "get_dict g out = Inr d"
    and "length g \<le> length g'" and "\<forall>a < length g. a \<noteq> out \<longrightarrow> g' ! a = g ! a"
  shows "get_arr g' a = Inr xs"
  using assms by (auto simp: get_arr_Inr get_dict_Inr)

lemma series_frame:
  assumes "series g c k = Inr xs" and "get_dict g out = Inr d" and "c \<noteq> out"
    and "length g \<le> length g'" and "\<forall>a < length g. a \<noteq> out \<longrightarrow> g' ! a = g ! a"
  shows "series g' c k = Inr xs"
proof -
  from assms(1) obtain es a where c: "get_dict g c = Inr es" "map_of es k = Some a"
    "get_arr g a = Inr xs"
    by (auto simp: series_def getitem_def split: sum.splits option.splits)
  from c(1) assms(3-5) have "get_dict g' c = Inr es"
    by (auto simp: get_dict_Inr)
  moreover have "get_arr g' a = Inr xs"
    using get_arr_frame [OF c(3) assms(2) assms(4) assms(5)] .
  ultimately show ?thesis
    using c(2) by (simp add: series_def getitem_def)
qed

lemma tc_loop_frame:
  "tc_loop cd ts re bs out ks g = Inr g' \<Longrightarrow>
     length g \<le> length g' \<and> (\<forall>a < length g. a \<noteq> out \<longrightarrow> g' ! a = g ! a)"
proof (induction ks arbitrary: g)
  case Nil
  then show ?case by simp
next
  case (Cons key ks)
  from Cons.prems obtain g1 where b: "tc_body cd ts re bs out key g = Inr g1"
    and l: "tc_loop cd ts re bs out ks g1 = Inr g'"
    by (auto split: sum.splits)
  from tc_body_frame [OF b] Cons.IH [OF l] show ?case by auto
qed

lemma tc_loop_keep:
  "tc_loop cd ts re bs out ks g = Inr g' \<Longrightarrow> k \<notin> set ks \<Longrightarrow> series g out k = Inr s \<Longrightarrow>
     series g' out k = Inr s"
proof (induction ks arbitrary: g)
  case Nil
  then show ?case by simp
next
  case (Cons key ks)
  from Cons.prems obtain g1 where b: "tc_body cd ts re bs out key g = Inr g1"
    and l: "tc_loop cd ts re bs out ks g1 = Inr g'"
    by (auto split: sum.splits)
  from Cons.prems(3) obtain d a where d: "get_dict g out = Inr d" "map_of d k = Some a"
    "get_arr g a = Inr s"
    by (auto simp: series_def getitem_def split: sum.splits option.splits)
  from Cons.prems(2) have ne: "k \<noteq> key" "k \<notin> set ks" by auto
  have "get_dict g1 out = Inr (AList.update key (length g + 2) d)"
    using tc_body_dict [OF b d(1)] by simp
  moreover have "get_arr g1 a = Inr s"
    using get_arr_frame [OF d(3) d(1)] tc_body_frame [OF b] by simp
  ultimately have "series g1 out k = Inr s"
    using d(2) ne(1) by (simp add: series_def getitem_def update_conv')
  with Cons.IH [OF l ne(2)] show ?case by simp
qed

lemma tc_loop_cell:
  "tc_loop cd ts re bs out ks g = Inr g' \<Longrightarrow> get_dict g out = Inr d \<Longrightarrow> cd \<noteq> out \<Longrightarrow>
   k \<in> set ks \<Longrightarrow> get_arr g ts = Inr tides \<Longrightarrow> series g cd k = Inr raw \<Longrightarrow>
     \<exists>s. broadcast2 fadd raw (map (\<lambda>t. fdiv (fsub t re) bs) tides) = Inr s \<and>
         series g' out k = Inr s"
proof (induction ks arbitrary: g d)
  case Nil
  then show ?case by simp
next
  case (Cons key ks)
  from Cons.prems(1) obtain g1 where b: "tc_body cd ts re bs out key g = Inr g1"
    and l: "tc_loop cd ts re bs out ks g1 = Inr g'"
    by (auto split: sum.splits)
  note fr = tc_body_frame [OF b]
  note dc = tc_body_dict [OF b Cons.prems(2)]
  have d1: "get_dict g1 out = Inr (AList.update key (length g + 2) d)"
    using dc by simp
  have t1: "get_arr g1 ts = Inr tides"
    using get_arr_frame [OF Cons.prems(5) Cons.prems(2)] fr by simp
  have s1: "series g1 cd k = Inr raw"
    using series_frame [OF Cons.prems(6) Cons.prems(2) Cons.prems(3)] fr by simp
  show ?case
  proof (cases "k \<in> set ks")
    case True
    from Cons.IH [OF l d1 Cons.prems(3) True t1 s1] show ?thesis .
  next
    case False
    with Cons.prems(4) have kk: "k = key" by simp
    from dc Cons.prems(5) Cons.prems(6) kk obtain s
      where s: "broadcast2 fadd raw (map (\<lambda>t. fdiv (fsub t re) bs) tides) = Inr s"
        "get_arr g1 (length g + 2) = Inr s"
      by blast
    have "series g1 out k = Inr s"
      using d1 s(2) kk by (simp add: series_def getitem_def update_conv')
    from tc_loop_keep [OF l False this] s(1) show ?thesis by blast
  qed
qed

lemma tc_loop_total:
  "get_arr g ts = Inr tides \<Longrightarrow> get_dict g out = Inr d \<Longrightarrow> cd \<noteq> out \<Longrightarrow>
   \<forall>k \<in> set ks. \<exists>raw. series g cd k = Inr raw \<and> length raw = length tides \<Longrightarrow>
     \<exists>g'. tc_loop cd ts re bs out ks g = Inr g'"
proof (induction ks arbitrary: g d)
  case Nil
  then show ?case by simp
next
  case (Cons key ks)
  from Cons.prems(4) obtain raw where raw: "series g cd key = Inr raw" "length raw = length tides"
    by auto
  have "broadcast2 fadd raw (map (\<lambda>t. fdiv (fsub t re) bs) tides)
          = Inr (map2 fadd raw (map (\<lambda>t. fdiv (fsub t re) bs) tides))"
    using raw(2) by (simp add: broadcast2_def)
  from tc_body_total [OF Cons.prems(1) raw(1) this Cons.prems(2)]
  obtain g1 where b: "tc_body cd ts re bs out key g = Inr g1" by blast
  note fr = tc_body_frame [OF b]
  have d1: "get_dict g1 out = Inr (AList.update key (length g + 2) d)"
    using tc_body_dict [OF b Cons.prems(2)] by simp
  have t1: "get_arr g1 ts = Inr tides"
    using get_arr_frame [OF Cons.prems(1) Cons.prems(2)] fr by simp
  have "\<forall>k \<in> set ks. \<exists>raw. series g1 cd k = Inr raw \<and> length raw = length tides"
  proof
    fix k assume "k \<in> set ks"
    with Cons.prems(4) obtain r where r: "series g cd k = Inr r" "length r = length tides"
      by auto
    from series_frame [OF r(1) Cons.prems(2) Cons.prems(3)] fr r(2)
    show "\<exists>raw. series g1 cd k = Inr raw \<and> length raw = length tides" by simp
  qed
  from Cons.IH [OF t1 d1 Cons.prems(3) this] b show ?case by simp
qed

lemma tidal_correction_frame:
  assumes "tidal_correction h cd ts re bs = Inr (h', out)"
  shows "out = length h \<and> length h < length h' \<and> (\<forall>a < length h. h' ! a = h ! a)"
proof -
  have "\<exists>ks. tc_loop cd ts re bs (length h) ks (h @ [Dict []]) = Inr h' \<and> out = length h"
  proof (cases "keys (h @ [Dict []]) cd")
    case (Inl e)
    with assms show ?thesis by (simp add: tidal_correction_def alloc_def)
  next
    case (Inr ks)
    with assms show ?thesis
      by (cases "tc_loop cd ts re bs (length h) ks (h @ [Dict []])")
        (auto simp: tidal_correction_def alloc_def)
  qed
  then obtain ks where l: "tc_loop cd ts re bs (length h) ks (h @ [Dict []]) = Inr h'"
    and out: "out = length h"
    by blast
  from tc_loop_frame [OF l] out show ?thesis
    by (auto simp: nth_append less_Suc_eq_le)
qed

lemma tidal_correction_cell:
  assumes "tidal_correction h cd ts re bs = Inr (h', out)"
    and "series h cd k = Inr raw" and "get_arr h ts = Inr tides"
  shows "\<exists>s. broadcast2 fadd raw (map (\<lambda>t. fdiv (fsub t re) bs) tides) = Inr s \<and>
             series h' out k = Inr s"
proof -
  let ?h0 = "h @ [Dict []]"
  from assms(2) obtain es a where es: "get_dict h cd = Inr es" "map_of es k = Some a"
    by (auto simp: series_def getitem_def split: sum.splits option.splits)
  then have cd: "cd < length h" by (simp add: get_dict_Inr)
  have k0: "keys ?h0 cd = Inr (map fst es)"
    using es(1) cd by (simp add: keys_def get_dict_append)
  from assms(1) k0 have l: "tc_loop cd ts re bs (length h) (map fst es) ?h0 = Inr h'"
    and out: "out = length h"
    by (cases "tc_loop cd ts re bs (length h) (map fst es) ?h0";
        simp add: tidal_correction_def alloc_def)+
  have d0: "get_dict ?h0 (length h) = Inr []" by (simp add: get_dict_def)
  have kin: "k \<in> set (map fst es)"
    using es(2) by (metis map_of_eq_None_iff option.distinct(1) set_map)
  have t0: "get_arr ?h0 ts = Inr tides"
    using assms(3) by (simp add: get_arr_Inr nth_append)
  have s0: "series ?h0 cd k = Inr raw"
    using assms(2) cd
    by (auto simp: series_def getitem_def get_dict_append get_arr_Inr nth_append
        split: sum.splits option.splits)
  from tc_loop_cell [OF l d0 _ kin t0 s0] cd out show ?thesis by auto
qed

lemma tidal_correction_total:
  assumes "aligned h cd ts"
  shows "\<exists>h'. tidal_correction h cd ts re bs = Inr (h', length h)"
proof -
  let ?h0 = "h @ [Dict []]"
  from assms obtain tides where t: "get_arr h ts = Inr tides"
    by (cases "get_arr h ts") (simp_all add: aligned_def)
  from assms t obtain ks where ks: "keys h cd = Inr ks"
    by (cases "keys h cd") (simp_all add: aligned_def)
  have al: "\<forall>k \<in> set ks. \<exists>raw. series h cd k = Inr raw \<and> length raw = length tides"
  proof
    fix k assume "k \<in> set ks"
    with assms t ks show "\<exists>raw. series h cd k = Inr raw \<and> length raw = length tides"
      by (cases "series h cd k") (auto simp: aligned_def list_all_iff)
  qed
  from ks have cd: "cd < length h" by (auto simp: keys_def get_dict_Inr split: sum.splits)
  have k0: "keys ?h0 cd = Inr ks"
    using ks cd by (simp add: keys_def get_dict_append)
  have d0: "get_dict ?h0 (length h) = Inr []" by (simp add: get_dict_def)
  have t0: "get_arr ?h0 ts = Inr tides"
    using t by (simp add: get_arr_Inr nth_append)
  have "\<forall>k \<in> set ks. \<exists>raw. series ?h0 cd k = Inr raw \<and> length raw = length tides"
  proof
    fix k assume "k \<in> set ks"
    with al obtain r where r: "series h cd k = Inr r" "length r = length tides" by auto
    from r(1) cd have "series ?h0 cd k = Inr r"
      by (auto simp: series_def getitem_def get_dict_append get_arr_Inr nth_append
        split: sum.splits option.splits)
    with r(2) show "\<exists>raw. series ?h0 cd k = Inr raw \<and> length raw = length tides" by simp
  qed
  moreover have "cd \<noteq> length h" using cd by simp
  ultimately obtain g' where "tc_loop cd ts re bs (length h) ks ?h0 = Inr g'"
    using tc_loop_total [OF t0 d0] by blast
  with k0 show ?thesis
    by (simp add: tidal_correction_def alloc_def)
qed


subsection \<open>The arithmetic\<close>

lemma bitlen_unique: "2 ^ k \<le> n \<Longrightarrow> n < 2 ^ Suc k \<Longrightarrow> bitlen n = Suc k"
proof (induction k arbitrary: n)
  case 0
  then have "n = 1" by simp
  then show ?case by (simp add: bitlen.simps)
next
  case (Suc k)
  from Suc.prems have "2 ^ k \<le> n div 2" "n div 2 < 2 ^ Suc k" by auto
  from Suc.IH [OF this] have "bitlen (n div 2) = Suc k" .
  moreover from Suc.prems have "n \<noteq> 0" by auto
  ultimately show ?case by (subst bitlen.simps) simp
qed

lemma rnd_not_nan: "\<not> isnan (rnd x)"
  by (simp add: rnd_def Let_def signed_zero_def signed_inf_def)

lemma fadd_nan: "isnan x \<Longrightarrow> fadd x y = NaN"
  by (cases x; cases y) simp_all

lemma fadd_not_nan: "isfinite x \<Longrightarrow> isfinite y \<Longrightarrow> \<not> isnan (fadd x y)"
  by (cases x; cases y) (simp_all add: rnd_not_nan)

lemma fneg_finite: "isfinite x \<Longrightarrow> isfinite (fneg x)"
  by (cases x) simp_all

lemma fsub_not_nan: "isfinite x \<Longrightarrow> isfinite y \<Longrightarrow> \<not> isnan (fsub x y)"
  by (simp add: fsub_def fadd_not_nan fneg_finite)

lemma fsub_self: "isfinite t \<Longrightarrow> fsub t t = Fin 0"
  by (cases t) (simp_all add: fsub_def)

lemma fdiv_zero_by: "\<not> iszero bs \<Longrightarrow> \<not> isnan bs \<Longrightarrow> fdiv (Fin 0) bs = signed_zero (signbit bs)"
  by (cases bs) (simp_all add: fdiv_def)

lemma fadd_zero: "isfinite r \<Longrightarrow> fadd r (signed_zero s) = (if r = NZero \<and> \<not> s then Fin 0 else r)"
  by (cases r) (simp_all add: signed_zero_def)

lemma fdiv_by_zero:
  "iszero z \<Longrightarrow> \<not> isnan d \<Longrightarrow>
     fdiv d z = (if iszero d then NaN else signed_inf (signbit d \<noteq> signbit z))"
  by (cases z; cases d) (simp_all add: fdiv_def)

lemma fadd_inf: "isfinite r \<Longrightarrow> fadd r (signed_inf s) = signed_inf s"
  by (cases r) (simp_all add: signed_inf_def)

lemma fadd_NaN_right: "fadd r NaN = NaN"
  by (cases r) simp_all

text \<open>
  The arithmetic at values whose binary64 results are known: the float written
  \<^verbatim>\<open>100.3\<close>; the float \<^verbatim>\<open>1/60\<close>; \<^verbatim>\<open>1e16 + 1.0\<close>, which is \<^verbatim>\<open>1e16\<close>; \<^verbatim>\<open>2.0**1023 + 2.0**1023\<close>,
  which overflows; \<^verbatim>\<open>1.0 / -0.0\<close>, which is minus infinity; and half of the smallest
  positive float, which is zero.
\<close>

lemmas rnd_defs = rnd_def ilog2_def pow2_def round_half_even_def signed_zero_def signed_inf_def Let_def

lemmas float_defs = fsub_def fdiv_def rnd_defs bitlen.simps

lemma float64_100_3: "rnd (1003 / 10) = Fin (7057985041019699 / 2 ^ 46)"
  by (simp add: float_defs)

lemma float64_one_sixtieth: "one_sixtieth = Fin (4803839602528529 / 2 ^ 58)"
  by (simp add: one_sixtieth_def float_defs)

lemma float64_absorbs_one: "fadd (Fin 10000000000000000) (Fin 1) = Fin 10000000000000000"
  by (simp add: float_defs)

lemma float64_overflow: "fadd (Fin (2 ^ 1023)) (Fin (2 ^ 1023)) = PInf"
proof -
  have "bitlen (2 ^ 1024) = Suc 1024" by (rule bitlen_unique) simp_all
  then show ?thesis by (simp add: rnd_defs)
qed

lemma float64_negative_zero_divisor: "fdiv (Fin 1) NZero = NInf"
  by (simp add: fdiv_def signed_inf_def)

lemma float64_underflow: "fdiv (Fin (1 / 2 ^ 1074)) (Fin 2) = Fin 0"
proof -
  have "bitlen (2 ^ 1075 - 1) = Suc 1074" by (rule bitlen_unique) simp_all
  then show ?thesis by (simp add: fdiv_def rnd_defs)
qed

subsection \<open>Running the cell on the example store\<close>

lemmas run_defs = tidal_correction_def alloc_def keys_def get_dict_def tc_body_def get_arr_def
  getitem_def setitem_def broadcast2_def series_def

lemma example_run:
  "tidal_correction example_store 3 2 (Fin 0) (Fin (1/2)) =
     Inr (example_store @
          [Dict [(''NA1'', 8), (''NA2'', 11)],
           Arr [Fin 1, Fin 2], Arr [Fin 2, Fin 4], Arr [Fin 102, NaN],
           Arr [Fin 1, Fin 2], Arr [Fin 2, Fin 4], Arr [Fin 42, Fin 54]], 5)"
  by (simp add: example_store_def run_defs float_defs)

lemma example_aligned: "aligned example_store 3 2"
  by (simp add: example_store_def aligned_def keys_def get_dict_def get_arr_def series_def
      getitem_def)

lemma example_series:
  "series example_store 3 ''NA1'' = Inr [Fin 100, NaN]"
  "series example_store 3 ''NA2'' = Inr [Fin 40, Fin 50]"
  "get_arr example_store 2 = Inr [Fin 1, Fin 2]"
  by (simp_all add: example_store_def series_def getitem_def get_dict_def get_arr_def)

lemma broadcast2_same_length:
  "length xs = length ys \<Longrightarrow> broadcast2 f xs ys = Inr (map2 f xs ys)"
  by (simp add: broadcast2_def)

lemma aligned_series:
  assumes "aligned h cd ts" and "series h cd key = Inr raw" and "get_arr h ts = Inr tides"
  shows "length raw = length tides"
proof -
  from assms(2) obtain es a where es: "get_dict h cd = Inr es" and a: "map_of es key = Some a"
    by (auto simp: series_def getitem_def split: sum.splits option.splits)
  from a have "key \<in> set (map fst es)"
    by (metis map_of_eq_None_iff option.distinct(1) set_map)
  moreover from assms(1) assms(3) es
  have "\<forall>k \<in> set (map fst es). case series h cd k of Inl _ \<Rightarrow> False
                                   | Inr raw \<Rightarrow> length raw = length tides"
    by (simp add: aligned_def keys_def list_all_iff)
  ultimately show ?thesis using assms(2) by fastforce
qed

subsection \<open>The correction formula\<close>

text \<open>
  Claim C1. For every transect and every date with a finite raw cross-shore distance, the
  tidally-corrected distance is the raw distance plus (tide level minus reference
  elevation) divided by the slope, the three operations being those of binary64, each
  with its rounding. The statement is about any run of the cell that completes, on
  series aligned with the tide series.
\<close>

theorem tidal_correction_formula:
  assumes "tidal_correction h cross_distance tides_sat reference_elevation beach_slope
             = Inr (h', corrected)"
    and "series h cross_distance key = Inr raw"
    and "get_arr h tides_sat = Inr tides"
    and "length raw = length tides" and "i < length raw" and "isfinite (raw ! i)"
  shows "\<exists>corr. series h' corrected key = Inr corr \<and> length corr = length raw \<and>
           corr ! i = fadd (raw ! i) (fdiv (fsub (tides ! i) reference_elevation) beach_slope)"
proof -
  let ?c = "map (\<lambda>t. fdiv (fsub t reference_elevation) beach_slope) tides"
  from tidal_correction_cell [OF assms(1) assms(2) assms(3)]
  obtain s where s: "broadcast2 fadd raw ?c = Inr s" "series h' corrected key = Inr s"
    by blast
  from s(1) assms(4) have eq: "s = map2 fadd raw ?c"
    by (simp add: broadcast2_same_length)
  have len: "length s = length raw" using eq assms(4) by simp
  have cell: "s ! i = fadd (raw ! i) (fdiv (fsub (tides ! i) reference_elevation) beach_slope)"
    using eq assms(4) assms(5) by simp
  with s(2) len show ?thesis by blast
qed

text \<open>
  Claim C1, at the two transects of the second store with the notebook's slope: the
  floats \<^verbatim>\<open>100.3 + 0.7/(1/60)\<close> and \<^verbatim>\<open>40.7 + 0.7/(1/60)\<close>, which are \<^verbatim>\<open>142.3\<close> and
  \<^verbatim>\<open>82.7\<close>.
\<close>

lemma rounding_run:
  "tidal_correction rounding_store 3 2 (Fin 0) one_sixtieth =
     Inr (rounding_store @
          [Dict [(''NA1'', 7), (''NA2'', 10)],
           Arr [Fin (3152519739159347 / 2 ^ 52)], Arr [Fin 42],
           Arr [Fin (2503368074120397 / 2 ^ 44)],
           Arr [Fin (3152519739159347 / 2 ^ 52)], Arr [Fin 42],
           Arr [Fin (5819495143492813 / 2 ^ 46)]], 4)"
  by (simp add: rounding_store_def run_defs float64_one_sixtieth float_defs)

lemma rounding_series:
  "series rounding_store 3 ''NA1'' = Inr [Fin (7057985041019699 / 2 ^ 46)]"
  "series rounding_store 3 ''NA2'' = Inr [Fin (2864007888030925 / 2 ^ 46)]"
  "get_arr rounding_store 2 = Inr [Fin (3152519739159347 / 2 ^ 52)]"
  by (simp_all add: rounding_store_def series_def getitem_def get_dict_def get_arr_def)

theorem tidal_correction_formula_witness:
  "series rounding_store 3 ''NA1'' = Inr [Fin (7057985041019699 / 2 ^ 46)] \<and>
   get_arr rounding_store 2 = Inr [Fin (3152519739159347 / 2 ^ 52)] \<and>
   isfinite (Fin (7057985041019699 / 2 ^ 46)) \<and>
   (\<exists>h'. tidal_correction rounding_store 3 2 (Fin 0) one_sixtieth = Inr (h', 4) \<and>
      (\<exists>corr. series h' 4 ''NA1'' = Inr corr \<and> length corr = 1 \<and>
         corr ! 0 = fadd (Fin (7057985041019699 / 2 ^ 46))
                      (fdiv (fsub (Fin (3152519739159347 / 2 ^ 52)) (Fin 0)) one_sixtieth) \<and>
         corr ! 0 = Fin (2503368074120397 / 2 ^ 44)))"
proof -
  have c: "series (rounding_store @
          [Dict [(''NA1'', 7), (''NA2'', 10)],
           Arr [Fin (3152519739159347 / 2 ^ 52)], Arr [Fin 42],
           Arr [Fin (2503368074120397 / 2 ^ 44)],
           Arr [Fin (3152519739159347 / 2 ^ 52)], Arr [Fin 42],
           Arr [Fin (5819495143492813 / 2 ^ 46)]]) 4 ''NA1''
        = Inr [Fin (2503368074120397 / 2 ^ 44)]"
    by (simp add: rounding_store_def series_def getitem_def get_dict_def get_arr_def)
  from tidal_correction_formula [OF rounding_run rounding_series(1) rounding_series(3), of 0]
  obtain corr where corr: "series (rounding_store @
          [Dict [(''NA1'', 7), (''NA2'', 10)],
           Arr [Fin (3152519739159347 / 2 ^ 52)], Arr [Fin 42],
           Arr [Fin (2503368074120397 / 2 ^ 44)],
           Arr [Fin (3152519739159347 / 2 ^ 52)], Arr [Fin 42],
           Arr [Fin (5819495143492813 / 2 ^ 46)]]) 4 ''NA1'' = Inr corr"
    "length corr = length [Fin (7057985041019699 / 2 ^ 46)]"
    "corr ! 0 = fadd ([Fin (7057985041019699 / 2 ^ 46)] ! 0)
                  (fdiv (fsub ([Fin (3152519739159347 / 2 ^ 52)] ! 0) (Fin 0)) one_sixtieth)"
    by auto
  from corr(1) c have "corr ! 0 = Fin (2503368074120397 / 2 ^ 44)" by simp
  with corr rounding_run rounding_series show ?thesis by simp
qed

subsection \<open>NaN cells\<close>

text \<open>
  Claim C4. If the raw cross-shore distance of a cell is NaN, the cell runs to completion
  on aligned series (no exception) and the tidally-corrected distance of that cell is NaN.
\<close>

theorem nan_raw_propagates:
  assumes "aligned h cross_distance tides_sat"
    and "series h cross_distance key = Inr raw"
    and "i < length raw" and "isnan (raw ! i)"
  shows "\<exists>h' corrected corr.
           tidal_correction h cross_distance tides_sat reference_elevation beach_slope
             = Inr (h', corrected) \<and>
           series h' corrected key = Inr corr \<and> i < length corr \<and> isnan (corr ! i)"
proof -
  from tidal_correction_total [OF assms(1)]
  obtain h' where run: "tidal_correction h cross_distance tides_sat reference_elevation
      beach_slope = Inr (h', length h)"
    by blast
  from assms(1) obtain tides where t: "get_arr h tides_sat = Inr tides"
    by (cases "get_arr h tides_sat") (simp_all add: aligned_def)
  have len: "length raw = length tides"
    using aligned_series [OF assms(1) assms(2) t] .
  let ?c = "map (\<lambda>t. fdiv (fsub t reference_elevation) beach_slope) tides"
  from tidal_correction_cell [OF run assms(2) t]
  obtain s where s: "broadcast2 fadd raw ?c = Inr s" "series h' (length h) key = Inr s"
    by blast
  from s(1) len have eq: "s = map2 fadd raw ?c"
    by (simp add: broadcast2_same_length)
  have "i < length s" using eq len assms(3) by simp
  moreover have "s ! i = NaN"
    using eq len assms(3) assms(4) by (simp add: fadd_nan)
  ultimately show ?thesis using run s(2) by auto
qed

text \<open>Claim C4, at the second date of \<^verbatim>\<open>NA1\<close>.\<close>

theorem nan_raw_propagates_witness:
  "aligned example_store 3 2 \<and> series example_store 3 ''NA1'' = Inr [Fin 100, NaN] \<and>
   (\<exists>h' corrected corr.
      tidal_correction example_store 3 2 (Fin 0) (Fin (1/2)) = Inr (h', corrected) \<and>
      series h' corrected ''NA1'' = Inr corr \<and> 1 < length corr \<and> isnan (corr ! 1))"
  using nan_raw_propagates [OF example_aligned example_series(1), of 1 "Fin 0" "Fin (1/2)"]
    example_aligned example_series(1)
  by simp

subsection \<open>Round trip\<close>

text \<open>
  Claim C5. Correcting with the reference elevation set to the tide level of a date leaves
  the finite raw distance of that date unchanged: the corrected value equals the raw one,
  and is the same float unless the raw value is the negative zero, which the addition of
  a positive zero turns into the positive zero. The tide level is a finite number and
  the slope is neither a zero nor NaN.
\<close>

theorem round_trip_reference_at_tide:
  assumes "get_arr h tides_sat = Inr tides" and "i < length tides" and "isfinite (tides ! i)"
    and "\<not> iszero beach_slope" and "\<not> isnan beach_slope"
    and "tidal_correction h cross_distance tides_sat (tides ! i) beach_slope
           = Inr (h', corrected)"
    and "series h cross_distance key = Inr raw"
    and "length raw = length tides" and "isfinite (raw ! i)"
  shows "\<exists>corr. series h' corrected key = Inr corr \<and> feq (corr ! i) (raw ! i) \<and>
           (raw ! i \<noteq> NZero \<longrightarrow> corr ! i = raw ! i)"
proof -
  let ?c = "map (\<lambda>t. fdiv (fsub t (tides ! i)) beach_slope) tides"
  from tidal_correction_cell [OF assms(6) assms(7) assms(1)]
  obtain s where s: "broadcast2 fadd raw ?c = Inr s" "series h' corrected key = Inr s"
    by blast
  from s(1) assms(8) have eq: "s = map2 fadd raw ?c"
    by (simp add: broadcast2_same_length)
  have "s ! i = fadd (raw ! i) (fdiv (fsub (tides ! i) (tides ! i)) beach_slope)"
    using eq assms(8) assms(2) by simp
  also have "\<dots> = fadd (raw ! i) (signed_zero (signbit beach_slope))"
    using assms(3) assms(4) assms(5) by (simp add: fsub_self fdiv_zero_by)
  also have "\<dots> = (if raw ! i = NZero \<and> \<not> signbit beach_slope then Fin 0 else raw ! i)"
    using assms(9) by (rule fadd_zero)
  finally have cell: "s ! i = (if raw ! i = NZero \<and> \<not> signbit beach_slope then Fin 0
                               else raw ! i)" .
  from assms(9) have "\<not> isnan (raw ! i)" by (cases "raw ! i") simp_all
  with cell have "feq (s ! i) (raw ! i)" "raw ! i \<noteq> NZero \<longrightarrow> s ! i = raw ! i"
    by (auto simp: feq_def)
  with s(2) show ?thesis by blast
qed

lemma example_run_round_trip:
  "tidal_correction example_store 3 2 (Fin 2) (Fin (1/2)) =
     Inr (example_store @
          [Dict [(''NA1'', 8), (''NA2'', 11)],
           Arr [Fin (-1), Fin 0], Arr [Fin (-2), Fin 0], Arr [Fin 98, NaN],
           Arr [Fin (-1), Fin 0], Arr [Fin (-2), Fin 0], Arr [Fin 38, Fin 50]], 5)"
  by (simp add: example_store_def run_defs float_defs)

text \<open>Claim C5, with the reference elevation at the tide level of the second date.\<close>

theorem round_trip_reference_at_tide_witness:
  "get_arr example_store 2 = Inr [Fin 1, Fin 2] \<and> isfinite ([Fin 1, Fin 2] ! 1) \<and>
   \<not> iszero (Fin (1/2)) \<and> \<not> isnan (Fin (1/2)) \<and>
   series example_store 3 ''NA2'' = Inr [Fin 40, Fin 50] \<and>
   (\<exists>h'. tidal_correction example_store 3 2 ([Fin 1, Fin 2] ! 1) (Fin (1/2)) = Inr (h', 5) \<and>
      (\<exists>corr. series h' 5 ''NA2'' = Inr corr \<and> feq (corr ! 1) (Fin 50) \<and> corr ! 1 = Fin 50))"
proof -
  have run: "tidal_correction example_store 3 2 ([Fin 1, Fin 2] ! 1) (Fin (1/2)) =
     Inr (example_store @
          [Dict [(''NA1'', 8), (''NA2'', 11)],
           Arr [Fin (-1), Fin 0], Arr [Fin (-2), Fin 0], Arr [Fin 98, NaN],
           Arr [Fin (-1), Fin 0], Arr [Fin (-2), Fin 0], Arr [Fin 38, Fin 50]], 5)"
    using example_run_round_trip by simp
  from round_trip_reference_at_tide [OF example_series(3) _ _ _ _ run example_series(2)]
  have "\<exists>corr. series (example_store @
          [Dict [(''NA1'', 8), (''NA2'', 11)],
           Arr [Fin (-1), Fin 0], Arr [Fin (-2), Fin 0], Arr [Fin 98, NaN],
           Arr [Fin (-1), Fin 0], Arr [Fin (-2), Fin 0], Arr [Fin 38, Fin 50]]) 5 ''NA2''
           = Inr corr \<and> feq (corr ! 1) (Fin 50) \<and> corr ! 1 = Fin 50"
    by simp
  with run example_series show ?thesis by simp
qed

lemma series_unchanged:
  assumes "tidal_correction h cd ts re bs = Inr (h', corrected)"
    and "series h cd key = Inr raw"
  shows "series h' cd key = Inr raw"
proof -
  note fr = tidal_correction_frame [OF assms(1)]
  from assms(2) obtain es a where es: "get_dict h cd = Inr es" "map_of es key = Some a"
    "get_arr h a = Inr raw"
    by (auto simp: series_def getitem_def split: sum.splits option.splits)
  from es(1) fr have "get_dict h' cd = Inr es" by (auto simp: get_dict_Inr)
  moreover from es(3) fr have "get_arr h' a = Inr raw" by (auto simp: get_arr_Inr)
  ultimately show ?thesis using es(2) by (simp add: series_def getitem_def)
qed

subsection \<open>The input is left alone\<close>

text \<open>
  Claim C10. The corrected series go into a fresh dict: its address is not one of the
  store before the cell. Every object of the store before the cell is unchanged after
  it, so \<^verbatim>\<open>cross_distance\<close> holds the same entries and every raw series reads as
  before.
\<close>

theorem tidal_correction_preserves_input:
  assumes "tidal_correction h cross_distance tides_sat reference_elevation beach_slope
             = Inr (h', corrected)"
  shows "corrected = length h \<and> (\<forall>a < length h. h' ! a = h ! a) \<and>
         (\<forall>es. get_dict h cross_distance = Inr es \<longrightarrow> get_dict h' cross_distance = Inr es) \<and>
         (\<forall>key raw. series h cross_distance key = Inr raw \<longrightarrow>
                     series h' cross_distance key = Inr raw)"
proof -
  note fr = tidal_correction_frame [OF assms]
  have d: "\<forall>es. get_dict h cross_distance = Inr es \<longrightarrow> get_dict h' cross_distance = Inr es"
    using fr by (auto simp: get_dict_Inr)
  have "\<forall>key raw. series h cross_distance key = Inr raw \<longrightarrow>
          series h' cross_distance key = Inr raw"
    using series_unchanged [OF assms] by blast
  with fr d show ?thesis by blast
qed

text \<open>Claim C10, on the example store.\<close>

theorem tidal_correction_preserves_input_witness:
  "\<exists>h'. tidal_correction example_store 3 2 (Fin 0) (Fin (1/2)) = Inr (h', 5) \<and>
     5 = length example_store \<and> h' ! 0 = Arr [Fin 100, NaN] \<and>
     get_dict h' 3 = Inr [(''NA1'', 0), (''NA2'', 1)] \<and>
     series h' 3 ''NA1'' = Inr [Fin 100, NaN]"
proof -
  have d: "get_dict example_store 3 = Inr [(''NA1'', 0), (''NA2'', 1)]"
    by (simp add: example_store_def get_dict_def)
  have z: "example_store ! 0 = Arr [Fin 100, NaN]" "length example_store = 5"
    by (simp_all add: example_store_def)
  from tidal_correction_preserves_input [OF example_run] d example_series(1) z example_run
  show ?thesis by simp
qed

subsection \<open>One correction for all transects\<close>

text \<open>
  Claim C9 says that corrected minus raw is the same for every pair of transects at every
  date. It fails by rounding: in the second store, with the notebook's slope, corrected
  minus raw is the float \<^verbatim>\<open>42.000000000000014\<close> for \<^verbatim>\<open>NA1\<close> and \<^verbatim>\<open>42.0\<close> for \<^verbatim>\<open>NA2\<close>.
\<close>

theorem shift_differs_by_rounding:
  "shift rounding_store 3 2 (Fin 0) one_sixtieth ''NA1'' 0
     = Inr (Fin (2955487255461889 / 2 ^ 46)) \<and>
   shift rounding_store 3 2 (Fin 0) one_sixtieth ''NA2'' 0 = Inr (Fin 42) \<and>
   shift rounding_store 3 2 (Fin 0) one_sixtieth ''NA1'' 0
     \<noteq> shift rounding_store 3 2 (Fin 0) one_sixtieth ''NA2'' 0"
proof -
  have a: "shift rounding_store 3 2 (Fin 0) one_sixtieth ''NA1'' 0
             = Inr (Fin (2955487255461889 / 2 ^ 46))"
    by (simp add: shift_def rounding_run)
       (simp add: rounding_store_def series_def getitem_def get_dict_def get_arr_def float_defs)
  have b: "shift rounding_store 3 2 (Fin 0) one_sixtieth ''NA2'' 0 = Inr (Fin 42)"
    by (simp add: shift_def rounding_run)
       (simp add: rounding_store_def series_def getitem_def get_dict_def get_arr_def float_defs)
  show ?thesis unfolding a b by simp
qed

text \<open>
  Claim C9, amended. One correction vector, computed from the tide series, the reference
  elevation and the slope alone, is added to the series of every transect: for every
  transect, the corrected series is the raw series plus that vector, entry by entry.
\<close>

theorem one_correction_for_all_transects:
  assumes "tidal_correction h cross_distance tides_sat reference_elevation beach_slope
             = Inr (h', corrected)"
    and "get_arr h tides_sat = Inr tides"
  shows "\<exists>correction.
           correction = map (\<lambda>t. fdiv (fsub t reference_elevation) beach_slope) tides \<and>
           (\<forall>key raw. series h cross_distance key = Inr raw \<and> length raw = length tides \<longrightarrow>
              series h' corrected key = Inr (map2 fadd raw correction))"
proof -
  let ?c = "map (\<lambda>t. fdiv (fsub t reference_elevation) beach_slope) tides"
  have "series h' corrected key = Inr (map2 fadd raw ?c)"
    if "series h cross_distance key = Inr raw" "length raw = length tides" for key raw
    using tidal_correction_cell [OF assms(1) that(1) assms(2)] that(2)
    by (simp add: broadcast2_same_length)
  then show ?thesis by blast
qed

text \<open>
  Claim C9, amended, in the second store: the vector has the one entry \<^verbatim>\<open>42.0\<close>, added
  to \<^verbatim>\<open>100.3\<close> and to \<^verbatim>\<open>40.7\<close>.
\<close>

theorem one_correction_for_all_transects_witness:
  "get_arr rounding_store 2 = Inr [Fin (3152519739159347 / 2 ^ 52)] \<and>
   series rounding_store 3 ''NA1'' = Inr [Fin (7057985041019699 / 2 ^ 46)] \<and>
   series rounding_store 3 ''NA2'' = Inr [Fin (2864007888030925 / 2 ^ 46)] \<and>
   map (\<lambda>t. fdiv (fsub t (Fin 0)) one_sixtieth) [Fin (3152519739159347 / 2 ^ 52)] = [Fin 42] \<and>
   (\<exists>h'. tidal_correction rounding_store 3 2 (Fin 0) one_sixtieth = Inr (h', 4) \<and>
      series h' 4 ''NA1'' = Inr (map2 fadd [Fin (7057985041019699 / 2 ^ 46)] [Fin 42]) \<and>
      series h' 4 ''NA2'' = Inr (map2 fadd [Fin (2864007888030925 / 2 ^ 46)] [Fin 42]))"
proof -
  have c: "map (\<lambda>t. fdiv (fsub t (Fin 0)) one_sixtieth) [Fin (3152519739159347 / 2 ^ 52)]
             = [Fin 42]"
    by (simp add: float64_one_sixtieth float_defs)
  from one_correction_for_all_transects [OF rounding_run rounding_series(3)] c
  have all: "\<forall>key raw. series rounding_store 3 key = Inr raw \<and> length raw = 1 \<longrightarrow>
      series (rounding_store @
          [Dict [(''NA1'', 7), (''NA2'', 10)],
           Arr [Fin (3152519739159347 / 2 ^ 52)], Arr [Fin 42],
           Arr [Fin (2503368074120397 / 2 ^ 44)],
           Arr [Fin (3152519739159347 / 2 ^ 52)], Arr [Fin 42],
           Arr [Fin (5819495143492813 / 2 ^ 46)]]) 4 key = Inr (map2 fadd raw [Fin 42])"
    by simp
  from all rounding_series(1) all rounding_series(2)
  have "series (rounding_store @
          [Dict [(''NA1'', 7), (''NA2'', 10)],
           Arr [Fin (3152519739159347 / 2 ^ 52)], Arr [Fin 42],
           Arr [Fin (2503368074120397 / 2 ^ 44)],
           Arr [Fin (3152519739159347 / 2 ^ 52)], Arr [Fin 42],
           Arr [Fin (5819495143492813 / 2 ^ 46)]]) 4 ''NA1''
          = Inr (map2 fadd [Fin (7057985041019699 / 2 ^ 46)] [Fin 42])"
    and "series (rounding_store @
          [Dict [(''NA1'', 7), (''NA2'', 10)],
           Arr [Fin (3152519739159347 / 2 ^ 52)], Arr [Fin 42],
           Arr [Fin (2503368074120397 / 2 ^ 44)],
           Arr [Fin (3152519739159347 / 2 ^ 52)], Arr [Fin 42],
           Arr [Fin (5819495143492813 / 2 ^ 46)]]) 4 ''NA2''
          = Inr (map2 fadd [Fin (2864007888030925 / 2 ^ 46)] [Fin 42])"
    by (metis length_Cons list.size(3) One_nat_def)+
  with rounding_run rounding_series c show ?thesis by blast
qed

subsection \<open>The slope is not validated\<close>

text \<open>
  Claim C3 says that a zero slope is rejected before any computation and that no division
  by a zero slope happens. The cell has no check: run on the example store with slope 0
  it completes, and the division yields infinities.
\<close>

theorem zero_slope_not_rejected:
  "tidal_correction example_store 3 2 (Fin 0) (Fin 0) =
     Inr (example_store @
          [Dict [(''NA1'', 8), (''NA2'', 11)],
           Arr [Fin 1, Fin 2], Arr [PInf, PInf], Arr [PInf, NaN],
           Arr [Fin 1, Fin 2], Arr [PInf, PInf], Arr [PInf, PInf]], 5)"
  by (simp add: example_store_def run_defs fsub_def fdiv_def signed_inf_def)

text \<open>
  Claim C3, amended. The slope is not validated. On aligned series the cell completes
  for every slope, and with a slope that is a zero of either sign a cell with finite raw
  distance, finite tide level and finite reference elevation becomes NaN when the tide
  level minus the reference elevation is zero, and otherwise an infinity: plus infinity
  when that difference and the zero slope have the same sign, minus infinity when they
  have opposite signs.
\<close>

theorem zero_slope_accepted:
  assumes "aligned h cross_distance tides_sat"
    and "series h cross_distance key = Inr raw"
    and "get_arr h tides_sat = Inr tides"
    and "i < length raw" and "isfinite (raw ! i)" and "isfinite (tides ! i)"
    and "isfinite reference_elevation" and "iszero zero_slope"
  shows "(\<exists>h'. tidal_correction h cross_distance tides_sat reference_elevation beach_slope
                 = Inr (h', length h)) \<and>
         (\<exists>h' corrected corr.
            tidal_correction h cross_distance tides_sat reference_elevation zero_slope
              = Inr (h', corrected) \<and>
            series h' corrected key = Inr corr \<and>
            corr ! i = (if iszero (fsub (tides ! i) reference_elevation) then NaN
                        else if signbit (fsub (tides ! i) reference_elevation) = signbit zero_slope
                        then PInf else NInf))"
proof -
  from tidal_correction_total [OF assms(1)]
  obtain h' where run: "tidal_correction h cross_distance tides_sat reference_elevation
      zero_slope = Inr (h', length h)"
    by blast
  have len: "length raw = length tides"
    using aligned_series [OF assms(1) assms(2) assms(3)] .
  let ?d = "fsub (tides ! i) reference_elevation"
  let ?c = "map (\<lambda>t. fdiv (fsub t reference_elevation) zero_slope) tides"
  from tidal_correction_cell [OF run assms(2) assms(3)] len
  have c: "series h' (length h) key = Inr (map2 fadd raw ?c)"
    by (simp add: broadcast2_same_length)
  have nn: "\<not> isnan ?d"
    using assms(6) assms(7) by (rule fsub_not_nan)
  have "map2 fadd raw ?c ! i = fadd (raw ! i) (fdiv ?d zero_slope)"
    using len assms(4) by simp
  also have "\<dots> = fadd (raw ! i)
      (if iszero ?d then NaN else signed_inf (signbit ?d \<noteq> signbit zero_slope))"
    using fdiv_by_zero [OF assms(8) nn] by simp
  also have "\<dots> = (if iszero ?d then NaN
                    else if signbit ?d = signbit zero_slope then PInf else NInf)"
    using assms(5) by (simp add: fadd_NaN_right fadd_inf) (simp add: signed_inf_def)
  finally have "map2 fadd raw ?c ! i =
      (if iszero ?d then NaN else if signbit ?d = signbit zero_slope then PInf else NInf)" .
  with run c tidal_correction_total [OF assms(1)] show ?thesis by blast
qed

text \<open>
  Claim C3, amended, with a negative slope, and with the negative zero for slope: at the
  second date of \<^verbatim>\<open>NA2\<close> the tide level is above the reference elevation and the
  corrected value is minus infinity.
\<close>

theorem zero_slope_accepted_witness:
  "aligned example_store 3 2 \<and> series example_store 3 ''NA2'' = Inr [Fin 40, Fin 50] \<and>
   get_arr example_store 2 = Inr [Fin 1, Fin 2] \<and> isfinite (Fin 0) \<and> iszero NZero \<and>
   (\<exists>h'. tidal_correction example_store 3 2 (Fin 0) (Fin (- 1)) = Inr (h', length example_store)) \<and>
   (\<exists>h' corrected corr.
      tidal_correction example_store 3 2 (Fin 0) NZero = Inr (h', corrected) \<and>
      series h' corrected ''NA2'' = Inr corr \<and> corr ! 1 = NInf)"
  using zero_slope_accepted [OF example_aligned example_series(2) example_series(3),
      of 1 "Fin 0" NZero "Fin (- 1)"] example_aligned example_series
  by (simp add: fsub_def)

section \<open>Properties of the tables\<close>

subsection \<open>Filling the dict and building the table\<close>

lemma fill_out_dict_post:
  "fill_out_dict src out ks g = Inr g' \<Longrightarrow> get_dict g out = Inr d \<Longrightarrow> src \<noteq> out \<Longrightarrow>
   get_dict g src = Inr es \<Longrightarrow>
     length g' = length g \<and> (\<forall>a < length g. a \<noteq> out \<longrightarrow> g' ! a = g ! a) \<and>
     (\<exists>d'. get_dict g' out = Inr d' \<and>
        (\<forall>k. map_of d' k = (if k \<in> set ks then map_of es k else map_of d k)))"
proof (induction ks arbitrary: g d)
  case Nil
  then show ?case by simp
next
  case (Cons key ks)
  from Cons.prems(1) obtain a g1 where a: "getitem g src key = Inr a"
    and g1: "setitem g out key a = Inr g1"
    and l: "fill_out_dict src out ks g1 = Inr g'"
    by (auto split: sum.splits)
  from a Cons.prems(4) have ma: "map_of es key = Some a"
    by (auto simp: getitem_def split: option.splits)
  from g1 Cons.prems(2) have g1eq: "g1 = g[out := Dict (AList.update key a d)]"
    by (simp add: setitem_def)
  from Cons.prems(2) have o: "out < length g" by (simp add: get_dict_Inr)
  have d1: "get_dict g1 out = Inr (AList.update key a d)"
    using g1eq o by (simp add: get_dict_def)
  have s1: "get_dict g1 src = Inr es"
    using g1eq Cons.prems(3) Cons.prems(4) by (simp add: get_dict_Inr)
  from Cons.IH [OF l d1 Cons.prems(3) s1]
  obtain d' where ih: "length g' = length g1" "\<forall>a < length g1. a \<noteq> out \<longrightarrow> g' ! a = g1 ! a"
    "get_dict g' out = Inr d'"
    "\<forall>k. map_of d' k = (if k \<in> set ks then map_of es k else map_of (AList.update key a d) k)"
    by blast
  have "\<forall>k. map_of d' k = (if k \<in> set (key # ks) then map_of es k else map_of d k)"
    using ih(4) ma by (simp add: update_conv')
  with ih(1) ih(2) ih(3) g1eq show ?case by simp
qed

lemma to_columns_lookup:
  "to_columns h es = Inr cs \<Longrightarrow> map_of es k = Some a \<Longrightarrow>
     a < length h \<and> (\<exists>c. as_column (h ! a) = Inr c \<and> map_of cs k = Some c)"
proof (induction es arbitrary: cs)
  case Nil
  then show ?case by simp
next
  case (Cons e es)
  obtain name b where e: "e = (name, b)" by (cases e)
  from Cons.prems(1) e obtain c cs' where b: "b < length h" "as_column (h ! b) = Inr c"
    and t: "to_columns h es = Inr cs'" and cs: "cs = (name, c) # cs'"
    by (auto split: if_splits sum.splits)
  show ?case
  proof (cases "k = name")
    case True
    with Cons.prems(2) e b cs show ?thesis by simp
  next
    case False
    with Cons.prems(2) e have "map_of es k = Some a" by simp
    from Cons.IH [OF t this] cs False show ?thesis by simp
  qed
qed

lemma DataFrame_column:
  assumes "DataFrame h data = Inr df" and "get_dict h data = Inr es"
    and "map_of es k = Some a"
  shows "a < length h \<and> (\<exists>c. as_column (h ! a) = Inr c \<and> map_of df k = Some c \<and>
           column_length c = nrows df)"
proof -
  from assms(1) assms(2) have t: "to_columns h es = Inr df"
    and al: "list_all (\<lambda>(name, c). column_length c = nrows df) df"
    by (auto simp: DataFrame_def split: sum.splits if_splits)
  from to_columns_lookup [OF t assms(3)]
  obtain c where c: "a < length h" "as_column (h ! a) = Inr c" "map_of df k = Some c"
    by blast
  from c(3) have "(k, c) \<in> set df" by (rule map_of_SomeD)
  with al have "column_length c = nrows df" by (auto simp: list_all_iff)
  with c show ?thesis by blast
qed

lemma to_csv_length: "length (to_csv df) = nrows df"
  by (simp add: to_csv_def)

lemma to_csv_column:
  assumes "map_of df k = Some c" and "column_length c = nrows df"
  shows "map (\<lambda>row. map_of row k) (to_csv df) = map (\<lambda>i. Some (cell_at c i)) [0..<column_length c]"
proof -
  have "map_of (map (\<lambda>(name, c). (name, cell_at c i)) df) k = Some (cell_at c i)" for i
    using assms(1) by (induction df) auto
  then show ?thesis using assms(2) by (simp add: to_csv_def comp_def)
qed

lemma to_csv_num:
  assumes "map_of df k = Some (NumCol xs)" and "length xs = nrows df"
  shows "map (\<lambda>row. map_of row k) (to_csv df) = map (\<lambda>x. Some (NumCell x)) xs"
  using to_csv_column [OF assms(1)] assms(2)
  by (simp add: list_eq_iff_nth_eq)

lemma to_csv_dates:
  assumes "map_of df ''dates'' = Some (DateCol ds)" and "length ds = nrows df"
  shows "csv_dates df = ds"
proof -
  have "map (\<lambda>row. map_of row ''dates'') (to_csv df) = map (\<lambda>d. Some (DateCell d)) ds"
    using to_csv_column [OF assms(1)] assms(2) by (simp add: list_eq_iff_nth_eq)
  then have "map (\<lambda>row. case map_of row ''dates'' of Some (DateCell d) \<Rightarrow> [d] | _ \<Rightarrow> [])
               (to_csv df) = map (\<lambda>d. [d]) ds"
    by (simp add: list_eq_iff_nth_eq)
  then show ?thesis by (simp add: csv_dates_def)
qed

lemma table_keeps_series:
  assumes fill: "fill_out_dict src (length h) ks ((h @ [Dict []])[length h := Dict [(''dates'', da)]])
             = Inr h2"
    and df: "DataFrame h2 (length h) = Inr df"
    and ds: "get_dates h da = Inr ds"
    and nd: "''dates'' \<notin> set ks" and kin: "key \<in> set ks"
    and sr: "series h src key = Inr xs"
  shows "keeps_series ds key xs df"
proof -
  let ?h1 = "(h @ [Dict []])[length h := Dict [(''dates'', da)]]"
  from sr obtain es a where es: "get_dict h src = Inr es" and a: "map_of es key = Some a"
    and xs: "get_arr h a = Inr xs"
    by (auto simp: series_def getitem_def split: sum.splits option.splits)
  from es have src: "src < length h" by (simp add: get_dict_Inr)
  have d1: "get_dict ?h1 (length h) = Inr [(''dates'', da)]"
    by (simp add: get_dict_def)
  have s1: "get_dict ?h1 src = Inr es"
    using es src by (simp add: get_dict_Inr nth_append)
  from src have ne: "src \<noteq> length h" by simp
  from fill_out_dict_post [OF fill d1 ne s1]
  obtain d' where post: "length h2 = length ?h1"
    "\<forall>a < length ?h1. a \<noteq> length h \<longrightarrow> h2 ! a = ?h1 ! a"
    "get_dict h2 (length h) = Inr d'"
    "\<forall>k. map_of d' k = (if k \<in> set ks then map_of es k else map_of [(''dates'', da)] k)"
    by blast
  have old: "h2 ! b = h ! b" if "b < length h" for b
    using post(2) that by (simp add: nth_append)
  have "map_of d' ''dates'' = Some da" using post(4) nd by simp
  from DataFrame_column [OF df post(3) this] ds old
  have dc: "map_of df ''dates'' = Some (DateCol ds)" "length ds = nrows df"
    by (auto simp: get_dates_Inr)
  have "map_of d' key = Some a" using post(4) kin a by simp
  from DataFrame_column [OF df post(3) this] xs old
  have kc: "map_of df key = Some (NumCol xs)" "length xs = nrows df"
    by (auto simp: get_arr_Inr)
  show ?thesis
    using dc kc to_csv_dates [OF dc] to_csv_num [OF kc]
    by (simp add: keeps_series_def to_csv_length)
qed

lemma fill_out_dict_frame:
  "fill_out_dict src out ks g = Inr g' \<Longrightarrow>
     length g' = length g \<and> (\<forall>a. a \<noteq> out \<longrightarrow> g' ! a = g ! a)"
proof (induction ks arbitrary: g)
  case Nil
  then show ?case by simp
next
  case (Cons key ks)
  from Cons.prems obtain a g1 where g1: "setitem g out key a = Inr g1"
    and l: "fill_out_dict src out ks g1 = Inr g'"
    by (auto split: sum.splits)
  from g1 have "length g1 = length g \<and> (\<forall>a. a \<noteq> out \<longrightarrow> g1 ! a = g ! a)"
    by (auto simp: setitem_def split: sum.splits)
  with Cons.IH [OF l] show ?case by simp
qed

lemma raw_table:
  assumes "transect_time_series h dates tkeys cd = Inr (h', df)"
  shows "length h < length h' \<and> (\<forall>a < length h. h' ! a = h ! a)"
    and "get_dates h dates = Inr ds \<Longrightarrow> ''dates'' \<notin> set tkeys \<Longrightarrow> key \<in> set tkeys \<Longrightarrow>
         series h cd key = Inr raw \<Longrightarrow> keeps_series ds key raw df"
proof -
  let ?h1 = "(h @ [Dict []])[length h := Dict [(''dates'', dates)]]"
  have s: "setitem (h @ [Dict []]) (length h) ''dates'' dates = Inr ?h1"
    by (simp add: setitem_def get_dict_def)
  from assms s have fill: "fill_out_dict cd (length h) tkeys ?h1 = Inr h'"
    and df: "DataFrame h' (length h) = Inr df"
    by (cases "fill_out_dict cd (length h) tkeys ?h1";
        cases "DataFrame (projr (fill_out_dict cd (length h) tkeys ?h1)) (length h)";
        simp add: transect_time_series_def alloc_def)+
  from fill_out_dict_frame [OF fill]
  show "length h < length h' \<and> (\<forall>a < length h. h' ! a = h ! a)"
    by (simp add: nth_append)
  show "keeps_series ds key raw df"
    if "get_dates h dates = Inr ds" "''dates'' \<notin> set tkeys" "key \<in> set tkeys"
      "series h cd key = Inr raw"
    using table_keeps_series [OF fill df that] .
qed

lemma corrected_table:
  assumes "transect_time_series_tidally_corrected h dates cc = Inr (h', df)"
    and "get_dates h dates = Inr ds"
    and "keys h cc = Inr ks" and "''dates'' \<notin> set ks"
    and "series h cc key = Inr corr"
  shows "keeps_series ds key corr df"
proof -
  let ?h1 = "(h @ [Dict []])[length h := Dict [(''dates'', dates)]]"
  have s: "setitem (h @ [Dict []]) (length h) ''dates'' dates = Inr ?h1"
    by (simp add: setitem_def get_dict_def)
  from assms(3) obtain es where es: "get_dict h cc = Inr es" "ks = map fst es"
    by (auto simp: keys_def split: sum.splits)
  then have cc: "cc < length h" by (simp add: get_dict_Inr)
  have k1: "keys ?h1 cc = Inr ks"
    using es cc by (simp add: keys_def get_dict_def nth_append)
  from assms(1) s k1 have fill: "fill_out_dict cc (length h) ks ?h1 = Inr h'"
    and df: "DataFrame h' (length h) = Inr df"
    by (cases "fill_out_dict cc (length h) ks ?h1";
        cases "DataFrame (projr (fill_out_dict cc (length h) ks ?h1)) (length h)";
        simp add: transect_time_series_tidally_corrected_def alloc_def)+
  from assms(5) obtain a where "map_of es key = Some a"
    using es(1) by (auto simp: series_def getitem_def split: sum.splits option.splits)
  then have kin: "key \<in> set ks"
    using es(2) by (metis map_of_eq_None_iff option.distinct(1) set_map)
  from table_keeps_series [OF fill df assms(2) assms(4) kin assms(5)]
  show ?thesis .
qed

lemma series_extend:
  assumes "series h d key = Inr xs" and "length h \<le> length h'"
    and "\<forall>a < length h. h' ! a = h ! a"
  shows "series h' d key = Inr xs"
  using assms
  by (auto simp: series_def getitem_def get_dict_def get_arr_def
      split: sum.splits option.splits if_splits obj.splits)

lemma tc_loop_keys:
  "tc_loop cd ts re bs out ks g = Inr g' \<Longrightarrow> get_dict g out = Inr d \<Longrightarrow>
     \<exists>d'. get_dict g' out = Inr d' \<and> set (map fst d') = set (map fst d) \<union> set ks"
proof (induction ks arbitrary: g d)
  case Nil
  then show ?case by simp
next
  case (Cons key ks)
  from Cons.prems(1) obtain g1 where b: "tc_body cd ts re bs out key g = Inr g1"
    and l: "tc_loop cd ts re bs out ks g1 = Inr g'"
    by (auto split: sum.splits)
  have d1: "get_dict g1 out = Inr (AList.update key (length g + 2) d)"
    using tc_body_dict [OF b Cons.prems(2)] by simp
  from Cons.IH [OF l d1] show ?case
    by (auto simp: dom_update)
qed

lemma tidal_correction_keys:
  assumes "tidal_correction h cd ts re bs = Inr (h', corrected)"
    and "keys h cd = Inr cks"
  shows "\<exists>ks. keys h' corrected = Inr ks \<and> set ks = set cks"
proof -
  let ?h0 = "h @ [Dict []]"
  from assms(2) have cd: "cd < length h"
    by (auto simp: keys_def get_dict_Inr split: sum.splits)
  with assms(2) have k0: "keys ?h0 cd = Inr cks"
    by (simp add: keys_def get_dict_append)
  from assms(1) k0 have l: "tc_loop cd ts re bs (length h) cks ?h0 = Inr h'"
    and out: "corrected = length h"
    by (cases "tc_loop cd ts re bs (length h) cks ?h0";
        simp add: tidal_correction_def alloc_def)+
  have d0: "get_dict ?h0 (length h) = Inr []" by (simp add: get_dict_def)
  from tc_loop_keys [OF l d0] out show ?thesis
    by (auto simp: keys_def)
qed


subsection \<open>The tables of the example store\<close>

lemmas table_defs = transect_time_series_def transect_time_series_tidally_corrected_def
  alloc_def setitem_def get_dict_def getitem_def keys_def DataFrame_def nrows_def

lemma example_raw_table:
  "transect_time_series example_store 4 [''NA1'', ''NA2''] 3 =
     Inr (example_store @ [Dict [(''dates'', 4), (''NA1'', 0), (''NA2'', 1)]],
          [(''dates'', DateCol [10, 20]), (''NA1'', NumCol [Fin 100, NaN]),
           (''NA2'', NumCol [Fin 40, Fin 50])])"
  by (simp add: example_store_def table_defs)

lemma example_run_after_table:
  "tidal_correction (example_store @ [Dict [(''dates'', 4), (''NA1'', 0), (''NA2'', 1)]])
       3 2 (Fin 0) (Fin (1/2)) =
     Inr (example_store @
          [Dict [(''dates'', 4), (''NA1'', 0), (''NA2'', 1)],
           Dict [(''NA1'', 9), (''NA2'', 12)],
           Arr [Fin 1, Fin 2], Arr [Fin 2, Fin 4], Arr [Fin 102, NaN],
           Arr [Fin 1, Fin 2], Arr [Fin 2, Fin 4], Arr [Fin 42, Fin 54]], 6)"
  by (simp add: example_store_def run_defs float_defs)

lemma example_corrected_table:
  "transect_time_series_tidally_corrected
       (example_store @
          [Dict [(''dates'', 4), (''NA1'', 0), (''NA2'', 1)],
           Dict [(''NA1'', 9), (''NA2'', 12)],
           Arr [Fin 1, Fin 2], Arr [Fin 2, Fin 4], Arr [Fin 102, NaN],
           Arr [Fin 1, Fin 2], Arr [Fin 2, Fin 4], Arr [Fin 42, Fin 54]]) 4 6 =
     Inr (example_store @
          [Dict [(''dates'', 4), (''NA1'', 0), (''NA2'', 1)],
           Dict [(''NA1'', 9), (''NA2'', 12)],
           Arr [Fin 1, Fin 2], Arr [Fin 2, Fin 4], Arr [Fin 102, NaN],
           Arr [Fin 1, Fin 2], Arr [Fin 2, Fin 4], Arr [Fin 42, Fin 54],
           Dict [(''dates'', 4), (''NA1'', 9), (''NA2'', 12)]],
          [(''dates'', DateCol [10, 20]), (''NA1'', NumCol [Fin 102, NaN]),
           (''NA2'', NumCol [Fin 42, Fin 54])])"
  by (simp add: example_store_def table_defs)

text \<open>
  Claim C7. For every transect, the table of raw series and the table of tidally-corrected
  series each hold the whole series of that transect, of the length of the date axis;
  the lines of the file are in the order of the date axis, hence chronological when the
  dates are increasing; a line with a NaN is a line like any other, none is dropped. The
  three cells run in the notebook's order, each on the store the previous one left. A
  transect is not named \<^verbatim>\<open>dates\<close>, the key of the date column.
\<close>

theorem tables_keep_every_date:
  assumes "get_dates h dates = Inr ds"
    and "keys h cross_distance = Inr cks" and "''dates'' \<notin> set cks"
    and "''dates'' \<notin> set transects_keys" and "key \<in> set transects_keys"
    and "series h cross_distance key = Inr raw" and "get_arr h tides_sat = Inr tides"
    and "transect_time_series h dates transects_keys cross_distance = Inr (h1, df)"
    and "tidal_correction h1 cross_distance tides_sat reference_elevation beach_slope
           = Inr (h2, corrected)"
    and "transect_time_series_tidally_corrected h2 dates corrected = Inr (h3, df')"
  shows "keeps_series ds key raw df \<and>
         (\<exists>corr. series h2 corrected key = Inr corr \<and> keeps_series ds key corr df') \<and>
         (sorted_wrt (<) ds \<longrightarrow> sorted_wrt (<) (csv_dates df) \<and> sorted_wrt (<) (csv_dates df'))"
proof -
  note ext1 = raw_table(1) [OF assms(8)]
  have raw: "keeps_series ds key raw df"
    using raw_table(2) [OF assms(8) assms(1) assms(4) assms(5) assms(6)] .
  have s1: "series h1 cross_distance key = Inr raw"
    using series_extend [OF assms(6)] ext1 by simp
  have t1: "get_arr h1 tides_sat = Inr tides"
    using assms(7) ext1 by (auto simp: get_arr_Inr)
  from assms(2) obtain es where es: "get_dict h cross_distance = Inr es" "cks = map fst es"
    by (auto simp: keys_def split: sum.splits)
  from es(1) ext1 have "get_dict h1 cross_distance = Inr es"
    by (auto simp: get_dict_Inr)
  with es(2) have k1: "keys h1 cross_distance = Inr cks"
    by (simp add: keys_def)
  note ext2 = tidal_correction_frame [OF assms(9)]
  have d2: "get_dates h2 dates = Inr ds"
    using assms(1) ext1 ext2 by (auto simp: get_dates_Inr)
  from tidal_correction_cell [OF assms(9) s1 t1]
  obtain corr where corr: "series h2 corrected key = Inr corr" by blast
  from tidal_correction_keys [OF assms(9) k1]
  obtain ks where ks: "keys h2 corrected = Inr ks" "set ks = set cks" by blast
  with assms(3) have "''dates'' \<notin> set ks" by simp
  from corrected_table [OF assms(10) d2 ks(1) this corr]
  have cor: "keeps_series ds key corr df'" .
  from raw cor have "csv_dates df = ds" "csv_dates df' = ds"
    by (simp_all add: keeps_series_def)
  with raw cor corr show ?thesis by auto
qed

text \<open>
  Claim C7, on the example store: both tables have two lines, and the second line of the
  corrected table carries the NaN of \<^verbatim>\<open>NA1\<close>.
\<close>

theorem tables_keep_every_date_witness:
  "get_dates example_store 4 = Inr [10, 20] \<and>
   keys example_store 3 = Inr [''NA1'', ''NA2''] \<and>
   series example_store 3 ''NA1'' = Inr [Fin 100, NaN] \<and>
   sorted_wrt (<) [10, 20 :: int] \<and>
   (\<exists>h1 df h2 h3 df'.
      transect_time_series example_store 4 [''NA1'', ''NA2''] 3 = Inr (h1, df) \<and>
      tidal_correction h1 3 2 (Fin 0) (Fin (1/2)) = Inr (h2, 6) \<and>
      transect_time_series_tidally_corrected h2 4 6 = Inr (h3, df') \<and>
      keeps_series [10, 20] ''NA1'' [Fin 100, NaN] df \<and>
      keeps_series [10, 20] ''NA1'' [Fin 102, NaN] df' \<and>
      to_csv df' = [[(''dates'', DateCell 10), (''NA1'', NumCell (Fin 102)), (''NA2'', NumCell (Fin 42))],
                    [(''dates'', DateCell 20), (''NA1'', NumCell NaN), (''NA2'', NumCell (Fin 54))]] \<and>
      csv_dates df = [10, 20] \<and> csv_dates df' = [10, 20])"
proof -
  have d: "get_dates example_store 4 = Inr [10, 20]"
    by (simp add: example_store_def get_dates_def)
  have k: "keys example_store 3 = Inr [''NA1'', ''NA2'']"
    by (simp add: example_store_def keys_def get_dict_def)
  have n: "''dates'' \<notin> set [''NA1'', ''NA2'']" "''NA1'' \<in> set [''NA1'', ''NA2'']"
    by simp_all
  have c: "series (example_store @
          [Dict [(''dates'', 4), (''NA1'', 0), (''NA2'', 1)],
           Dict [(''NA1'', 9), (''NA2'', 12)],
           Arr [Fin 1, Fin 2], Arr [Fin 2, Fin 4], Arr [Fin 102, NaN],
           Arr [Fin 1, Fin 2], Arr [Fin 2, Fin 4], Arr [Fin 42, Fin 54]]) 6 ''NA1''
           = Inr [Fin 102, NaN]"
    by (simp add: example_store_def series_def getitem_def get_dict_def get_arr_def)
  have csv: "to_csv [(''dates'', DateCol [10, 20]), (''NA1'', NumCol [Fin 102, NaN]),
           (''NA2'', NumCol [Fin 42, Fin 54])] =
      [[(''dates'', DateCell 10), (''NA1'', NumCell (Fin 102)), (''NA2'', NumCell (Fin 42))],
       [(''dates'', DateCell 20), (''NA1'', NumCell NaN), (''NA2'', NumCell (Fin 54))]]"
    by (simp add: to_csv_def nrows_def upt_rec)
  from tables_keep_every_date [OF d k n(1) n(1) n(2) example_series(1) example_series(3)
      example_raw_table example_run_after_table example_corrected_table] c
  have "keeps_series [10, 20] ''NA1'' [Fin 100, NaN]
          [(''dates'', DateCol [10, 20]), (''NA1'', NumCol [Fin 100, NaN]),
           (''NA2'', NumCol [Fin 40, Fin 50])] \<and>
        keeps_series [10, 20] ''NA1'' [Fin 102, NaN]
          [(''dates'', DateCol [10, 20]), (''NA1'', NumCol [Fin 102, NaN]),
           (''NA2'', NumCol [Fin 42, Fin 54])]"
    by simp
  then show ?thesis
    using d k example_series(1) example_raw_table example_run_after_table
      example_corrected_table csv
    by (simp add: keeps_series_def)
qed


section \<open>Properties of the tide lookup\<close>

lemma closest_spec:
  "closest date best ss \<in> set (best # ss) \<and>
   (\<forall>s \<in> set (best # ss). \<not> closer date s (closest date best ss))"
proof (induction ss arbitrary: best)
  case Nil
  show ?case by (simp add: closer_def)
next
  case (Cons s ss)
  let ?b = "if closer date s best then s else best"
  from Cons.IH [of ?b]
  have ih: "closest date ?b ss \<in> set (?b # ss)"
    "\<forall>x \<in> set (?b # ss). \<not> closer date x (closest date ?b ss)"
    by blast+
  have "\<not> closer date s (closest date ?b ss) \<and> \<not> closer date best (closest date ?b ss)"
    using ih(2) by (auto simp: closer_def split: if_splits)
  with ih show ?case by auto
qed

lemma get_closest_datapoint_nth:
  "get_closest_datapoint dates ts = Inr levels \<Longrightarrow>
     length levels = length dates \<and> (\<forall>i < length dates. tideLevel ts (dates ! i) = Inr (levels ! i))"
proof (induction dates arbitrary: levels)
  case Nil
  then show ?case by simp
next
  case (Cons d ds)
  from Cons.prems obtain l ls where l: "tideLevel ts d = Inr l"
    and ls: "get_closest_datapoint ds ts = Inr ls" and eq: "levels = l # ls"
    by (auto split: sum.splits)
  from Cons.IH [OF ls] l eq show ?case
    by (auto simp: nth_Cons split: nat.splits)
qed

lemma get_closest_datapoint_total:
  "ts \<noteq> [] \<Longrightarrow> \<exists>levels. get_closest_datapoint dates ts = Inr levels"
proof (induction dates)
  case Nil
  show ?case by simp
next
  case (Cons d ds)
  then obtain ls where "get_closest_datapoint ds ts = Inr ls" by blast
  moreover from Cons.prems obtain l where "tideLevel ts d = Inr l"
    by (cases ts) (simp_all add: tideLevel_def)
  ultimately show ?case by simp
qed

text \<open>
  Claim C8. For every acquisition date, the tide level used is that of a sample of the
  tide series that is closest to the date in absolute time, and no sample equally close
  is earlier. The lookup returns one level per date whenever the series has a sample.
\<close>

theorem closest_sample_earlier_on_ties:
  assumes "tide_series \<noteq> []" and "i < length dates"
  shows "\<exists>levels. get_closest_datapoint dates tide_series = Inr levels \<and>
           length levels = length dates \<and>
           (\<exists>s \<in> set tide_series. levels ! i = snd s \<and>
              (\<forall>s' \<in> set tide_series.
                 \<bar>fst s - dates ! i\<bar> \<le> \<bar>fst s' - dates ! i\<bar> \<and>
                 (\<bar>fst s' - dates ! i\<bar> = \<bar>fst s - dates ! i\<bar> \<longrightarrow> fst s \<le> fst s')))"
proof -
  from get_closest_datapoint_total [OF assms(1)]
  obtain levels where lv: "get_closest_datapoint dates tide_series = Inr levels" by blast
  note nth = get_closest_datapoint_nth [OF lv]
  from assms(1) obtain b ss where ts: "tide_series = b # ss" by (cases tide_series) auto
  let ?s = "closest (dates ! i) b ss"
  from nth assms(2) ts have "levels ! i = snd ?s"
    by (auto simp: tideLevel_def)
  moreover from closest_spec [of "dates ! i" b ss] ts
  have "?s \<in> set tide_series" "\<forall>s' \<in> set tide_series. \<not> closer (dates ! i) s' ?s"
    by simp_all
  then have "?s \<in> set tide_series \<and> (\<forall>s' \<in> set tide_series.
                 \<bar>fst ?s - dates ! i\<bar> \<le> \<bar>fst s' - dates ! i\<bar> \<and>
                 (\<bar>fst s' - dates ! i\<bar> = \<bar>fst ?s - dates ! i\<bar> \<longrightarrow> fst ?s \<le> fst s'))"
    by (auto simp: closer_def not_less)
  ultimately show ?thesis using lv nth by blast
qed

text \<open>
  Claim C8, with samples at 5, 15 and 26: the date 10 is as close to 5 as to 15 and gets
  the level of 5.
\<close>

theorem closest_sample_earlier_on_ties_witness:
  "[(5, Fin 1), (15, Fin 2), (26, Fin 3)] \<noteq> ([] :: sample list) \<and>
   (\<exists>levels. get_closest_datapoint [10, 20] [(5, Fin 1), (15, Fin 2), (26, Fin 3)] = Inr levels \<and>
      length levels = 2 \<and> levels ! 0 = Fin 1)"
proof -
  have ne: "[(5, Fin 1), (15, Fin 2), (26, Fin 3)] \<noteq> ([] :: sample list)" by simp
  have i: "0 < length [10, 20 :: int]" by simp
  have run: "get_closest_datapoint [10, 20] [(5, Fin 1), (15, Fin 2), (26, Fin 3)]
               = Inr [Fin 1, Fin 2]"
    by (simp add: tideLevel_def closer_def)
  from closest_sample_earlier_on_ties [OF ne i] run ne show ?thesis by simp
qed

section \<open>Properties of the intersection engine\<close>

lemma analyse_policy_irrelevant:
  "analyse cluster (st\<lparr>multipleInter := p\<rparr>) tr points = analyse cluster st tr points"
  by (simp add: analyse_def Let_def)

lemma landward_rejection_policy_irrelevant:
  "landward_rejection (st\<lparr>multipleInter := p\<rparr>) v = landward_rejection st v"
  by (cases v) (simp_all add: landward_rejection_def)

text \<open>
  Claim C2. Under the policy "auto" the resolution is a decision for the transect: the
  series of a transect is the series the policy "max" gives for all its dates when the
  fraction of dates with several clusters exceeds \<open>autoPrc\<close>, and the series the
  policy "nan" gives for all its dates otherwise.
\<close>

theorem auto_policy_per_transect:
  assumes "multipleInter st = Auto"
  shows "intersect_QC cluster st tr shorelines =
           (if autoPrc st < multiple_fraction (map (analyse cluster st tr) shorelines)
            then intersect_QC cluster (st\<lparr>multipleInter := Max\<rparr>) tr shorelines
            else intersect_QC cluster (st\<lparr>multipleInter := Nan\<rparr>) tr shorelines)"
  using assms
  by (simp add: intersect_QC_def transect_policy_def analyse_policy_irrelevant
      landward_rejection_policy_irrelevant Let_def)

lemma intersect_QC_cell:
  assumes "origin tr \<noteq> endpoint tr" and "i < length shorelines"
  shows "\<exists>s. intersect_QC cluster st tr shorelines = Inr s \<and> length s = length shorelines \<and>
             s ! i = landward_rejection st
                       (resolve (transect_policy st (map (analyse cluster st tr) shorelines))
                          (analyse cluster st tr (shorelines ! i)))"
  using assms by (auto simp: intersect_QC_def Let_def)

lemma compute_intersection_QC_lookup:
  "list_all (\<lambda>(k, t). origin t \<noteq> endpoint t) transects \<Longrightarrow> shorelines \<noteq> [] \<Longrightarrow>
     \<exists>cd. compute_intersection_QC cluster st transects shorelines = Inr cd \<and>
          (\<forall>key tr. map_of transects key = Some tr \<longrightarrow>
             (\<exists>s. map_of cd key = Some s \<and> intersect_QC cluster st tr shorelines = Inr s))"
proof (induction transects)
  case Nil
  show ?case by simp
next
  case (Cons e transects)
  obtain k t where e: "e = (k, t)" by (cases e)
  from Cons.prems e have wf: "origin t \<noteq> endpoint t"
    "list_all (\<lambda>(k, t). origin t \<noteq> endpoint t) transects" by simp_all
  from wf(1) Cons.prems(2) obtain s where s: "intersect_QC cluster st t shorelines = Inr s"
    by (auto simp: intersect_QC_def Let_def)
  from Cons.IH [OF wf(2) Cons.prems(2)] obtain cd
    where cd: "compute_intersection_QC cluster st transects shorelines = Inr cd"
      "\<forall>key tr. map_of transects key = Some tr \<longrightarrow>
             (\<exists>s. map_of cd key = Some s \<and> intersect_QC cluster st tr shorelines = Inr s)"
    by blast
  from s cd e show ?case by auto
qed

text \<open>
  Claim C6. When fewer than \<open>minPoints\<close> points of a date lie within \<open>alongDist\<close> of a
  transect, the engine returns a series for that transect (no error) whose value at that
  date is NaN.
\<close>

theorem too_few_points_gives_nan:
  assumes "list_all (\<lambda>(k, t). origin t \<noteq> endpoint t) transects"
    and "map_of transects key = Some tr" and "i < length shorelines"
    and "length (pointsWithinAlongshoreBand tr (shorelines ! i) (alongDist st)) < minPoints st"
  shows "\<exists>cross_distance s.
           compute_intersection_QC cluster st transects shorelines = Inr cross_distance \<and>
           map_of cross_distance key = Some s \<and> length s = length shorelines \<and> s ! i = NaN"
proof -
  from assms(3) have ne: "shorelines \<noteq> []" by auto
  from compute_intersection_QC_lookup [OF assms(1) ne] assms(2)
  obtain cd s where cd: "compute_intersection_QC cluster st transects shorelines = Inr cd"
    "map_of cd key = Some s" "intersect_QC cluster st tr shorelines = Inr s"
    by blast
  from assms(1) assms(2) have wf: "origin tr \<noteq> endpoint tr"
    by (auto simp: list_all_iff dest: map_of_SomeD)
  have "analyse cluster st tr (shorelines ! i) = TooFew"
    using assms(4) by (simp add: analyse_def)
  with intersect_QC_cell [OF wf assms(3), of cluster st] cd(3)
  have "length s = length shorelines \<and> s ! i = NaN"
    by (auto simp: landward_rejection_def)
  with cd show ?thesis by blast
qed

subsection \<open>The engine on the example records\<close>

lemmas engine_defs = analyse_def settings_transects_def unit_transect_def pointsWithinAlongshoreBand_def
  projectOntoTransect_def spread_def gap_clusters_def std_def mean_def

lemma sqrt_below_maxStd: "\<not> 15 < sqrt (8 / 3)"
proof -
  have "sqrt (8 / 3) < sqrt (15\<^sup>2)"
    by (simp only: real_sqrt_less_iff) simp
  then show ?thesis by simp
qed

lemma analyse_two_crossings:
  "analyse (gap_clusters 50) settings_transects unit_transect two_crossings = Multiple [[40, 41], [160]]"
  by (simp add: engine_defs two_crossings_def)

lemma analyse_one_crossing:
  "analyse (gap_clusters 50) settings_transects unit_transect one_crossing = Single [100, 102, 98]"
  by (simp add: engine_defs one_crossing_def sqrt_below_maxStd)

lemma example_fraction:
  "multiple_fraction (map (analyse (gap_clusters 50) settings_transects unit_transect)
      [one_crossing, one_crossing, one_crossing, two_crossings]) = 1 / 4"
  by (simp add: analyse_one_crossing analyse_two_crossings multiple_fraction_def)

lemma example_series_max:
  "intersect_QC (gap_clusters 50) (settings_transects\<lparr>multipleInter := Max\<rparr>) unit_transect
      [one_crossing, one_crossing, one_crossing, two_crossings]
     = Inr [Fin 100, Fin 100, Fin 100, Fin 160]"
proof -
  have wf: "origin unit_transect \<noteq> endpoint unit_transect" by (simp add: unit_transect_def)
  have mc: "minChainage settings_transects = - 100" by (simp add: settings_transects_def)
  show ?thesis
    by (simp add: intersect_QC_def wf analyse_policy_irrelevant
        landward_rejection_policy_irrelevant analyse_one_crossing analyse_two_crossings
        transect_policy_def landward_rejection_def mc median_chainage_def median_def)
qed

text \<open>
  Claim C2, on four dates of which one has two crossings: a quarter exceeds a tenth, and
  the ambiguous date gets the seaward chainage 160.
\<close>

theorem auto_policy_per_transect_witness:
  "multipleInter settings_transects = Auto \<and>
   autoPrc settings_transects < multiple_fraction (map (analyse (gap_clusters 50) settings_transects unit_transect)
      [one_crossing, one_crossing, one_crossing, two_crossings]) \<and>
   intersect_QC (gap_clusters 50) settings_transects unit_transect
      [one_crossing, one_crossing, one_crossing, two_crossings]
     = Inr [Fin 100, Fin 100, Fin 100, Fin 160]"
proof -
  have a: "multipleInter settings_transects = Auto"
    by (simp add: settings_transects_def)
  have "autoPrc settings_transects = 1 / 10"
    by (simp add: settings_transects_def)
  then have fr: "autoPrc settings_transects < multiple_fraction
      (map (analyse (gap_clusters 50) settings_transects unit_transect)
         [one_crossing, one_crossing, one_crossing, two_crossings])"
    unfolding example_fraction by simp
  from auto_policy_per_transect [OF a, of "gap_clusters 50" unit_transect
      "[one_crossing, one_crossing, one_crossing, two_crossings]"] fr
  have "intersect_QC (gap_clusters 50) settings_transects unit_transect
          [one_crossing, one_crossing, one_crossing, two_crossings]
        = intersect_QC (gap_clusters 50) (settings_transects\<lparr>multipleInter := Max\<rparr>) unit_transect
          [one_crossing, one_crossing, one_crossing, two_crossings]"
    by (simp only: if_True)
  with example_series_max a fr show ?thesis by (simp only: simp_thms)
qed

text \<open>Claim C6, with two points in the band at the second date.\<close>

theorem too_few_points_gives_nan_witness:
  "map_of [(''NA1'', unit_transect)] ''NA1'' = Some unit_transect \<and>
   length (pointsWithinAlongshoreBand unit_transect ([one_crossing, [(100, 0), (102, 3), (70, 30)]] ! 1)
             (alongDist settings_transects)) < minPoints settings_transects \<and>
   (\<exists>cross_distance s.
      compute_intersection_QC (gap_clusters 50) settings_transects [(''NA1'', unit_transect)]
         [one_crossing, [(100, 0), (102, 3), (70, 30)]] = Inr cross_distance \<and>
      map_of cross_distance ''NA1'' = Some s \<and> length s = 2 \<and> s ! 1 = NaN)"
proof -
  have few: "length (pointsWithinAlongshoreBand unit_transect
                ([one_crossing, [(100, 0), (102, 3), (70, 30)]] ! 1)
             (alongDist settings_transects)) < minPoints settings_transects"
    by (simp add: engine_defs)
  have wf: "list_all (\<lambda>(k, t). origin t \<noteq> endpoint t) [(''NA1'', unit_transect)]"
    by (simp add: unit_transect_def)
  have m: "map_of [(''NA1'', unit_transect)] ''NA1'' = Some unit_transect" by simp
  have i: "1 < length [one_crossing, [(100, 0), (102, 3), (70, 30)]]" by simp
  from too_few_points_gives_nan [OF wf m i few, of "gap_clusters 50"]
  obtain cd s where r: "compute_intersection_QC (gap_clusters 50) settings_transects
         [(''NA1'', unit_transect)] [one_crossing, [(100, 0), (102, 3), (70, 30)]] = Inr cd"
    "map_of cd ''NA1'' = Some s"
    "length s = length [one_crossing, [(100, 0), (102, 3), (70, 30)]]" "s ! 1 = NaN"
    by blast
  from r(3) have "length s = 2" by simp
  with r(1) r(2) r(4) m few show ?thesis by blast
qed


end
